theory Spec2Isabelle
  imports Main
begin

section \<open>Data model (the SQLAlchemy models of app.py)\<close>

text \<open>
  Every table is the list of its rows in insertion order. A column declared
  \<open>nullable=False\<close> has a plain type, a nullable column an option type; a value
  \<open>None\<close> offered for a non-nullable column is refused by the store with an
  \<open>IntegrityError\<close>. Strings are lists of characters; a character stands for a code
  point below 256.
\<close>

record team =
  t_id :: nat
  t_team_name :: string
  t_invite_code :: string
  t_created_by :: "nat option"

record user =
  u_id :: nat
  u_name :: string
  u_email :: string
  u_phone :: string
  u_college :: string
  u_password_hash :: string
  u_team_id :: "nat option"

record submission =
  s_id :: nat
  s_title :: string
  s_description :: string
  s_github :: string
  s_video :: string
  s_user_id :: nat

record feedback_row =
  f_id :: nat
  f_text :: string
  f_rating :: string
  f_user_id :: "nat option"

record sponsor =
  sp_id :: nat
  sp_name :: string
  sp_tier :: string
  sp_link :: "string option"

record live_update =
  lu_id :: nat
  lu_text :: string

record notification =
  n_id :: nat
  n_text :: string

record database =
  teams :: "team list"
  users :: "user list"
  submissions :: "submission list"
  feedbacks :: "feedback_row list"
  sponsors :: "sponsor list"
  live_updates :: "live_update list"
  notifications :: "notification list"

definition empty_db :: database where
  "empty_db = \<lparr>teams = [], users = [], submissions = [], feedbacks = [],
     sponsors = [], live_updates = [], notifications = []\<rparr>"

text \<open>
  An integer primary key without a given value: the store assigns one more than the
  largest key of the table, 1 on an empty table.
\<close>

definition next_id :: "nat list \<Rightarrow> nat" where
  "next_id ids = Suc (fold max ids 0)"

section \<open>Requests, responses and the ambient state of a request\<close>

datatype http_method = GET | POST

text \<open>\<open>request.form.get(k)\<close> is \<open>None\<close> when the form has no field \<open>k\<close>.\<close>

type_synonym form = "string \<rightharpoonup> string"

datatype sval = IntV nat | BoolV bool

fun truthy :: "sval \<Rightarrow> bool" where
  "truthy (IntV n) = (n \<noteq> 0)"
| "truthy (BoolV b) = b"

fun sval_int :: "sval \<Rightarrow> nat" where
  "sval_int (IntV n) = n"
| "sval_int (BoolV b) = (if b then 1 else 0)"

datatype error = AttributeError | IndexError | IntegrityError | NotFound

datatype view =
    IndexView nat nat nat "submission list"
  | RegisterView
  | LoginView
  | DashboardView user "team option" "user list" "submission option"
      "sponsor list" "live_update list" "notification list"
  | SubmitView
  | FeedbackView "feedback_row list"
  | SponsorsView "sponsor list"
  | FaqView
  | LeaderboardView "submission list"
  | AdminLoginView
  | AdminDashboardView "live_update list" "notification list"
  | AdminTeamsView "team list"

text \<open>\<open>Redirect e\<close> is \<open>redirect(url_for(e))\<close>, \<open>Render v\<close> a rendered template.\<close>

datatype response = Redirect string | Render view

text \<open>
  The state a view function works on: the store, the session of the client, and the
  random generator, given as the sequence of the indices it will draw. The session is
  kept in two parts. \<open>flashes\<close> is its entry \<open>_flashes\<close>: the list of notices
  (category, message) that \<open>flash\<close> has queued there, empty when the entry is absent.
  \<open>session\<close> holds every other entry. Rendering a template is not modelled, so no
  view function takes a notice out of the queue.
\<close>

record world =
  db :: database
  session :: "string \<rightharpoonup> sval"
  flashes :: "(string \<times> string) list"
  rng :: "nat \<Rightarrow> nat"

text \<open>
  A view function returns its response, or the exception it raised (answered by the
  framework with an error page; the transaction that was not committed is dropped),
  together with the state it leaves behind.
\<close>

type_synonym result = "(error + response) \<times> world"

text \<open>\<open>flash(msg, category)\<close> appends the notice to the list under \<open>_flashes\<close>.\<close>

definition flash :: "string \<Rightarrow> string \<Rightarrow> world \<Rightarrow> world" where
  "flash msg category w = w\<lparr>flashes := flashes w @ [(category, msg)]\<rparr>"

section \<open>Helper functions\<close>

definition chars :: string where
  "chars = ''ABCDEFGHIJKLMNOPQRSTUVWXYZ0123456789''"

text \<open>The generator after \<open>n\<close> draws.\<close>

definition advance :: "nat \<Rightarrow> (nat \<Rightarrow> nat) \<Rightarrow> (nat \<Rightarrow> nat)" where
  "advance n r i = r (i + n)"

text \<open>\<open>random.choice(seq)\<close>: the element at the next index drawn below \<open>len(seq)\<close>.\<close>

definition random_choice :: "'a list \<Rightarrow> (nat \<Rightarrow> nat) \<Rightarrow> 'a \<times> (nat \<Rightarrow> nat)" where
  "random_choice xs r = (xs ! (r 0 mod length xs), advance 1 r)"

fun draw :: "nat \<Rightarrow> (nat \<Rightarrow> nat) \<Rightarrow> string \<times> (nat \<Rightarrow> nat)" where
  "draw 0 r = ([], r)"
| "draw (Suc n) r =
     (case random_choice chars r of (c, r') \<Rightarrow>
        (case draw n r' of (cs, r'') \<Rightarrow> (c # cs, r'')))"

definition generate_invite_code :: "(nat \<Rightarrow> nat) \<Rightarrow> string \<times> (nat \<Rightarrow> nat)" where
  "generate_invite_code r = draw 6 r"

definition get_user :: "database \<Rightarrow> nat \<Rightarrow> user option" where
  "get_user d i = find (\<lambda>u. u_id u = i) (users d)"

definition get_current_user :: "world \<Rightarrow> user option" where
  "get_current_user w =
     (case session w ''user_id'' of
        Some v \<Rightarrow> get_user (db w) (sval_int v)
      | None \<Rightarrow> None)"

definition default_sponsors :: "(string \<times> string \<times> string option) list" where
  "default_sponsors =
     [(''Alpha Tech Solutions'', ''Gold'', Some ''https://example.com''),
      (''Beta Cloud Services'', ''Silver'', Some ''https://example.com''),
      (''CodeCraft Academy'', ''Bronze'', Some ''https://example.com'')]"

fun add_sponsors :: "(string \<times> string \<times> string option) list \<Rightarrow> sponsor list \<Rightarrow> sponsor list" where
  "add_sponsors [] rows = rows"
| "add_sponsors ((n, t, l) # rest) rows =
     add_sponsors rest
       (rows @ [\<lparr>sp_id = next_id (map sp_id rows), sp_name = n, sp_tier = t, sp_link = l\<rparr>])"

definition seed_sponsors :: "world \<Rightarrow> world" where
  "seed_sponsors w =
     (if length (sponsors (db w)) = 0
      then w\<lparr>db := (db w)\<lparr>sponsors := add_sponsors default_sponsors (sponsors (db w))\<rparr>\<rparr>
      else w)"

definition session_is_admin :: "world \<Rightarrow> bool" where
  "session_is_admin w = (case session w ''is_admin'' of Some v \<Rightarrow> truthy v | None \<Rightarrow> False)"

definition require_admin :: "world \<Rightarrow> bool \<times> world" where
  "require_admin w =
     (if \<not> session_is_admin w
      then (False, flash ''Admin access required.'' ''error'' w)
      else (True, w))"

section \<open>Strings: \<open>str.split()\<close> without arguments\<close>

text \<open>
  The whitespace characters below code point 256, and the split at runs of whitespace:
  no empty strings in the result, so a string of whitespace only gives the empty list.
\<close>

definition isspace :: "char \<Rightarrow> bool" where
  "isspace c = (of_char c \<in> {9::nat, 10, 11, 12, 13, 28, 29, 30, 31, 32, 133, 160})"

fun split_from :: "string \<Rightarrow> string \<Rightarrow> string list" where
  "split_from cur [] = (if cur = [] then [] else [cur])"
| "split_from cur (c # cs) =
     (if isspace c
      then (if cur = [] then split_from [] cs else cur # split_from [] cs)
      else split_from (cur @ [c]) cs)"

definition str_split :: "string \<Rightarrow> string list" where
  "str_split s = split_from [] s"

section \<open>Registration\<close>

definition find_user_by_email :: "database \<Rightarrow> string option \<Rightarrow> user option" where
  "find_user_by_email d email = find (\<lambda>u. Some (u_email u) = email) (users d)"

definition find_team_by_code :: "database \<Rightarrow> string option \<Rightarrow> team option" where
  "find_team_by_code d code = find (\<lambda>t. Some (t_invite_code t) = code) (teams d)"

text \<open>
  The loop \<open>while Team.query.filter_by(invite_code=code).first(): code = generate_invite_code()\<close>.
  It has no bound: \<open>None\<close> is the run that never leaves the loop.
\<close>

partial_function (option) unique_code_loop ::
  "database \<Rightarrow> string \<Rightarrow> (nat \<Rightarrow> nat) \<Rightarrow> (string \<times> (nat \<Rightarrow> nat)) option" where
  "unique_code_loop d code r =
     (if find_team_by_code d (Some code) \<noteq> None
      then (case generate_invite_code r of (code', r') \<Rightarrow> unique_code_loop d code' r')
      else Some (code, r))"

text \<open>
  The team name of the create path: the given name, or the fallback
  \<open>f"Team-{name.split()[0]}"\<close> when \<open>not team_name\<close>.
\<close>

definition resolve_team_name :: "string option \<Rightarrow> string option \<Rightarrow> error + string" where
  "resolve_team_name team_name name =
     (case team_name of
        Some (c # cs) \<Rightarrow> Inr (c # cs)
      | _ \<Rightarrow>
          (case name of
             None \<Rightarrow> Inl AttributeError
           | Some n \<Rightarrow>
               (case str_split n of
                  [] \<Rightarrow> Inl IndexError
                | tok # _ \<Rightarrow> Inr (''Team-'' @ tok))))"

text \<open>
  \<open>db.session.add(user); db.session.commit()\<close>: the insert of the User row, refused when
  a non-nullable column is \<open>None\<close>. Nothing of the transaction is stored then.
\<close>

definition insert_user ::
  "string option \<Rightarrow> string option \<Rightarrow> string option \<Rightarrow> string option \<Rightarrow> string \<Rightarrow>
   nat option \<Rightarrow> database \<Rightarrow> error + database" where
  "insert_user name email phone college password_hash team_id d =
     (case (name, email, phone, college) of
        (Some n, Some e, Some p, Some c) \<Rightarrow>
          Inr (d\<lparr>users := users d @
            [\<lparr>u_id = next_id (map u_id (users d)), u_name = n, u_email = e, u_phone = p,
              u_college = c, u_password_hash = password_hash, u_team_id = team_id\<rparr>]\<rparr>)
      | _ \<Rightarrow> Inl IntegrityError)"

definition finish_register ::
  "string option \<Rightarrow> string option \<Rightarrow> string option \<Rightarrow> string option \<Rightarrow> string \<Rightarrow>
   nat option \<Rightarrow> database \<Rightarrow> world \<Rightarrow> result" where
  "finish_register name email phone college password_hash team_id d w =
     (case insert_user name email phone college password_hash team_id d of
        Inl e \<Rightarrow> (Inl e, w)
      | Inr d' \<Rightarrow>
          (Inr (Redirect ''login''),
           flash ''Registration successful. Please login.'' ''success'' (w\<lparr>db := d'\<rparr>)))"

text \<open>
  \<open>register\<close>; \<open>hashpw\<close> is \<open>generate_password_hash\<close> on a string (on \<open>None\<close> it
  raises). The result is \<open>None\<close> when the invite-code loop does not end.
\<close>

definition register :: "(string \<Rightarrow> string) \<Rightarrow> http_method \<Rightarrow> form \<Rightarrow> world \<Rightarrow> result option" where
  "register hashpw m frm w =
     (if m = POST then
        (let name = frm ''name''; email = frm ''email''; phone = frm ''phone'';
             college = frm ''college''; password = frm ''password'';
             team_choice = frm ''teamChoice''; team_name = frm ''teamName'';
             invite_code = frm ''inviteCode''
         in
         if find_user_by_email (db w) email \<noteq> None
         then Some (Inr (Redirect ''login''),
                    flash ''Email already registered. Please login.'' ''error'' w)
         else
           (case password of
              None \<Rightarrow> Some (Inl AttributeError, w)
            | Some pw \<Rightarrow>
                (let password_hash = hashpw pw in
                 if team_choice = Some ''create'' then
                   (case resolve_team_name team_name name of
                      Inl e \<Rightarrow> Some (Inl e, w)
                    | Inr team_name' \<Rightarrow>
                        (case generate_invite_code (rng w) of (code0, r0) \<Rightarrow>
                           (case unique_code_loop (db w) code0 r0 of
                              None \<Rightarrow> None
                            | Some (code, r) \<Rightarrow>
                                (let new_id = next_id (map t_id (teams (db w)));
                                     new_team = \<lparr>t_id = new_id, t_team_name = team_name',
                                        t_invite_code = code, t_created_by = None\<rparr>;
                                     d = (db w)\<lparr>teams := teams (db w) @ [new_team]\<rparr>
                                 in Some (finish_register name email phone college
                                      password_hash (Some new_id) d (w\<lparr>rng := r\<rparr>))))))
                 else if team_choice = Some ''join'' then
                   (case find_team_by_code (db w) invite_code of
                      None \<Rightarrow> Some (Inr (Redirect ''register''),
                                 flash ''Invalid invite code!'' ''error'' w)
                    | Some team \<Rightarrow>
                        Some (finish_register name email phone college
                          password_hash (Some (t_id team)) (db w) w))
                 else Some (finish_register name email phone college
                          password_hash None (db w) w))))
      else Some (Inr (Render RegisterView), w))"

section \<open>Login and logout\<close>

text \<open>\<open>checkpw\<close> is \<open>check_password_hash\<close> on a string (on \<open>None\<close> it raises).\<close>

definition login :: "(string \<Rightarrow> string \<Rightarrow> bool) \<Rightarrow> http_method \<Rightarrow> form \<Rightarrow> world \<Rightarrow> result" where
  "login checkpw m frm w =
     (if m = POST then
        (case find_user_by_email (db w) (frm ''email'') of
           None \<Rightarrow> (Inr (Render LoginView), flash ''Invalid email or password.'' ''error'' w)
         | Some user \<Rightarrow>
             (case frm ''password'' of
                None \<Rightarrow> (Inl AttributeError, w)
              | Some pw \<Rightarrow>
                  if checkpw (u_password_hash user) pw
                  then (Inr (Redirect ''dashboard''),
                        flash ''Logged in successfully!'' ''success''
                          (w\<lparr>session := (session w)(''user_id'' \<mapsto> IntV (u_id user))\<rparr>))
                  else (Inr (Render LoginView),
                        flash ''Invalid email or password.'' ''error'' w)))
      else (Inr (Render LoginView), w))"

text \<open>
  \<open>session.clear()\<close> removes every entry of the session, the queued notices with
  them; the notice of the logout is queued after that.
\<close>

definition logout :: "world \<Rightarrow> result" where
  "logout w =
     (Inr (Redirect ''home''),
      flash ''Logged out.'' ''info'' (w\<lparr>session := Map.empty, flashes := []\<rparr>))"

section \<open>Public pages\<close>

definition home :: "world \<Rightarrow> result" where
  "home w =
     (let total_users = length (users (db w));
          total_teams = length (teams (db w));
          total_submissions = length (submissions (db w));
          top_submissions = take 3 (sort_key s_id (submissions (db w)))
      in (Inr (Render (IndexView total_users total_teams total_submissions top_submissions)), w))"

definition user_team :: "database \<Rightarrow> user \<Rightarrow> team option" where
  "user_team d u =
     (case u_team_id u of None \<Rightarrow> None | Some i \<Rightarrow> find (\<lambda>t. t_id t = i) (teams d))"

definition dashboard :: "world \<Rightarrow> result" where
  "dashboard w =
     (case get_current_user w of
        None \<Rightarrow> (Inr (Redirect ''login''), flash ''Please login to access dashboard.'' ''error'' w)
      | Some user \<Rightarrow>
          (let team = user_team (db w) user;
               team_members = (case team of
                   Some t \<Rightarrow> filter (\<lambda>u. u_team_id u = Some (t_id t)) (users (db w))
                 | None \<Rightarrow> []);
               submission = find (\<lambda>s. s_user_id s = u_id user) (submissions (db w));
               w' = seed_sponsors w;
               live = rev (sort_key lu_id (live_updates (db w')));
               notes = rev (sort_key n_id (notifications (db w')))
           in (Inr (Render (DashboardView user team team_members submission
                 (sponsors (db w')) live notes)), w')))"

definition sponsors_page :: "world \<Rightarrow> result" where
  "sponsors_page w = (let w' = seed_sponsors w in (Inr (Render (SponsorsView (sponsors (db w')))), w'))"

definition faq :: "world \<Rightarrow> result" where
  "faq w = (Inr (Render FaqView), w)"

definition leaderboard :: "world \<Rightarrow> result" where
  "leaderboard w = (Inr (Render (LeaderboardView (sort_key s_id (submissions (db w))))), w)"

section \<open>Submission\<close>

definition submit :: "http_method \<Rightarrow> form \<Rightarrow> world \<Rightarrow> result" where
  "submit m frm w =
     (case get_current_user w of
        None \<Rightarrow> (Inr (Redirect ''login''), flash ''Please login to submit.'' ''error'' w)
      | Some user \<Rightarrow>
          if m = POST then
            (let title = frm ''title''; desc = frm ''desc'';
                 github = frm ''github''; video = frm ''video''
             in
             case (title, desc, github, video) of
               (Some t, Some d, Some g, Some v) \<Rightarrow>
                 (let rows = submissions (db w);
                      rows' = (case find (\<lambda>s. s_user_id s = u_id user) rows of
                          None \<Rightarrow> rows @
                            [\<lparr>s_id = next_id (map s_id rows), s_title = t, s_description = d,
                              s_github = g, s_video = v, s_user_id = u_id user\<rparr>]
                        | Some sub \<Rightarrow>
                            map (\<lambda>s. if s_id s = s_id sub
                                      then s\<lparr>s_title := t, s_description := d,
                                             s_github := g, s_video := v\<rparr>
                                      else s) rows)
                  in (Inr (Redirect ''dashboard''),
                      flash ''Submission saved!'' ''success''
                        (w\<lparr>db := (db w)\<lparr>submissions := rows'\<rparr>\<rparr>)))
             | _ \<Rightarrow> (Inl IntegrityError, w))
          else (Inr (Render SubmitView), w))"

section \<open>Feedback\<close>

definition feedback :: "http_method \<Rightarrow> form \<Rightarrow> world \<Rightarrow> result" where
  "feedback m frm w =
     (let user = get_current_user w in
      if m = POST then
        (case user of
           None \<Rightarrow> (Inr (Redirect ''login''), flash ''Login required to give feedback.'' ''error'' w)
         | Some u \<Rightarrow>
             (case (frm ''text'', frm ''rating'') of
                (Some text, Some rating) \<Rightarrow>
                  (let rows = feedbacks (db w);
                       fb = \<lparr>f_id = next_id (map f_id rows), f_text = text, f_rating = rating,
                             f_user_id = Some (u_id u)\<rparr>
                   in (Inr (Redirect ''feedback''),
                       flash ''Thank you for your feedback!'' ''success''
                         (w\<lparr>db := (db w)\<lparr>feedbacks := rows @ [fb]\<rparr>\<rparr>)))
              | _ \<Rightarrow> (Inl IntegrityError, w)))
      else
        (let fbs = (case user of
                None \<Rightarrow> []
              | Some u \<Rightarrow>
                  rev (sort_key f_id
                    (filter (\<lambda>f. f_user_id f = Some (u_id u)) (feedbacks (db w)))))
         in (Inr (Render (FeedbackView fbs)), w)))"

section \<open>Admin routes\<close>

definition ADMIN_EMAIL :: string where
  "ADMIN_EMAIL = ''admin@hackathon.com''"

definition ADMIN_PASSWORD :: string where
  "ADMIN_PASSWORD = ''admin123''"

definition admin_login :: "http_method \<Rightarrow> form \<Rightarrow> world \<Rightarrow> result" where
  "admin_login m frm w =
     (if m = POST then
        (let email = frm ''email''; password = frm ''password'' in
         if email = Some ADMIN_EMAIL \<and> password = Some ADMIN_PASSWORD
         then (Inr (Redirect ''admin_dashboard''),
               flash ''Admin login successful!'' ''success''
                 (w\<lparr>session := (session w)(''is_admin'' \<mapsto> BoolV True)\<rparr>))
         else (Inr (Render AdminLoginView), flash ''Invalid admin credentials.'' ''error'' w))
      else (Inr (Render AdminLoginView), w))"

definition admin_logout :: "world \<Rightarrow> result" where
  "admin_logout w =
     (Inr (Redirect ''admin_login''),
      flash ''Admin logged out.'' ''info'' (w\<lparr>session := (session w)(''is_admin'' := None)\<rparr>))"

definition admin_dashboard :: "world \<Rightarrow> result" where
  "admin_dashboard w =
     (case require_admin w of
        (False, w') \<Rightarrow> (Inr (Redirect ''admin_login''), w')
      | (True, w') \<Rightarrow>
          (let updates = rev (sort_key lu_id (live_updates (db w')));
               notes = rev (sort_key n_id (notifications (db w')))
           in (Inr (Render (AdminDashboardView updates notes)), w')))"

definition admin_add_update :: "form \<Rightarrow> world \<Rightarrow> result" where
  "admin_add_update frm w =
     (case require_admin w of
        (False, w') \<Rightarrow> (Inr (Redirect ''admin_login''), w')
      | (True, w') \<Rightarrow>
          (case frm ''text'' of
             Some (c # cs) \<Rightarrow>
               (let rows = live_updates (db w') in
                (Inr (Redirect ''admin_dashboard''),
                 w'\<lparr>db := (db w')\<lparr>live_updates :=
                   rows @ [\<lparr>lu_id = next_id (map lu_id rows), lu_text = c # cs\<rparr>]\<rparr>\<rparr>))
           | _ \<Rightarrow> (Inr (Redirect ''admin_dashboard''), w')))"

definition admin_add_notification :: "form \<Rightarrow> world \<Rightarrow> result" where
  "admin_add_notification frm w =
     (case require_admin w of
        (False, w') \<Rightarrow> (Inr (Redirect ''admin_login''), w')
      | (True, w') \<Rightarrow>
          (case frm ''text'' of
             Some (c # cs) \<Rightarrow>
               (let rows = notifications (db w') in
                (Inr (Redirect ''admin_dashboard''),
                 w'\<lparr>db := (db w')\<lparr>notifications :=
                   rows @ [\<lparr>n_id = next_id (map n_id rows), n_text = c # cs\<rparr>]\<rparr>\<rparr>))
           | _ \<Rightarrow> (Inr (Redirect ''admin_dashboard''), w')))"

definition admin_delete_update :: "nat \<Rightarrow> world \<Rightarrow> result" where
  "admin_delete_update i w =
     (case require_admin w of
        (False, w') \<Rightarrow> (Inr (Redirect ''admin_login''), w')
      | (True, w') \<Rightarrow>
          (case find (\<lambda>x. lu_id x = i) (live_updates (db w')) of
             None \<Rightarrow> (Inl NotFound, w')
           | Some item \<Rightarrow>
               (Inr (Redirect ''admin_dashboard''),
                w'\<lparr>db := (db w')\<lparr>live_updates :=
                  filter (\<lambda>x. lu_id x \<noteq> lu_id item) (live_updates (db w'))\<rparr>\<rparr>)))"

definition admin_delete_notification :: "nat \<Rightarrow> world \<Rightarrow> result" where
  "admin_delete_notification i w =
     (case require_admin w of
        (False, w') \<Rightarrow> (Inr (Redirect ''admin_login''), w')
      | (True, w') \<Rightarrow>
          (case find (\<lambda>x. n_id x = i) (notifications (db w')) of
             None \<Rightarrow> (Inl NotFound, w')
           | Some item \<Rightarrow>
               (Inr (Redirect ''admin_dashboard''),
                w'\<lparr>db := (db w')\<lparr>notifications :=
                  filter (\<lambda>x. n_id x \<noteq> n_id item) (notifications (db w'))\<rparr>\<rparr>)))"

definition admin_teams :: "world \<Rightarrow> result" where
  "admin_teams w =
     (case require_admin w of
        (False, w') \<Rightarrow> (Inr (Redirect ''admin_login''), w')
      | (True, w') \<Rightarrow> (Inr (Render (AdminTeamsView (teams (db w')))), w'))"

section \<open>The routes, and the stores they can produce\<close>

datatype request =
    Home
  | Register http_method form
  | Login http_method form
  | Logout
  | Dashboard
  | Submit http_method form
  | Feedback http_method form
  | SponsorsPage
  | Faq
  | Leaderboard
  | AdminLogin http_method form
  | AdminLogout
  | AdminDashboard
  | AdminAddUpdate form
  | AdminAddNotification form
  | AdminDeleteUpdate nat
  | AdminDeleteNotification nat
  | AdminTeams

fun handle ::
  "(string \<Rightarrow> string) \<Rightarrow> (string \<Rightarrow> string \<Rightarrow> bool) \<Rightarrow> request \<Rightarrow> world \<Rightarrow> result option" where
  "handle hashpw checkpw Home w = Some (home w)"
| "handle hashpw checkpw (Register m frm) w = register hashpw m frm w"
| "handle hashpw checkpw (Login m frm) w = Some (login checkpw m frm w)"
| "handle hashpw checkpw Logout w = Some (logout w)"
| "handle hashpw checkpw Dashboard w = Some (dashboard w)"
| "handle hashpw checkpw (Submit m frm) w = Some (submit m frm w)"
| "handle hashpw checkpw (Feedback m frm) w = Some (feedback m frm w)"
| "handle hashpw checkpw SponsorsPage w = Some (sponsors_page w)"
| "handle hashpw checkpw Faq w = Some (faq w)"
| "handle hashpw checkpw Leaderboard w = Some (leaderboard w)"
| "handle hashpw checkpw (AdminLogin m frm) w = Some (admin_login m frm w)"
| "handle hashpw checkpw AdminLogout w = Some (admin_logout w)"
| "handle hashpw checkpw AdminDashboard w = Some (admin_dashboard w)"
| "handle hashpw checkpw (AdminAddUpdate frm) w = Some (admin_add_update frm w)"
| "handle hashpw checkpw (AdminAddNotification frm) w = Some (admin_add_notification frm w)"
| "handle hashpw checkpw (AdminDeleteUpdate i) w = Some (admin_delete_update i w)"
| "handle hashpw checkpw (AdminDeleteNotification i) w = Some (admin_delete_notification i w)"
| "handle hashpw checkpw AdminTeams w = Some (admin_teams w)"

text \<open>
  The stores reachable from the empty one: each step is one request that returns, served
  with any session, any queue of notices and any random generator.
\<close>

inductive reachable :: "database \<Rightarrow> bool" where
  reachable_init: "reachable empty_db"
| reachable_step:
    "reachable (db w) \<Longrightarrow> handle hashpw checkpw req w = Some (out, w') \<Longrightarrow> reachable (db w')"

section \<open>Properties of stores, and sample inputs\<close>

text \<open>A well-formed invite code, and a Team table whose codes are well-formed and unique.\<close>

definition valid_code :: "string \<Rightarrow> bool" where
  "valid_code c \<longleftrightarrow> length c = 6 \<and> set c \<subseteq> set ''ABCDEFGHIJKLMNOPQRSTUVWXYZ0123456789''"

definition codes_ok :: "database \<Rightarrow> bool" where
  "codes_ok d \<longleftrightarrow> list_all (\<lambda>t. valid_code (t_invite_code t)) (teams d) \<and>
     distinct (map t_invite_code (teams d))"

text \<open>Two stores with the same Team, Submission and Feedback tables.\<close>

definition same_core :: "database \<Rightarrow> database \<Rightarrow> bool" where
  "same_core d d' \<longleftrightarrow>
     teams d' = teams d \<and> submissions d' = submissions d \<and> feedbacks d' = feedbacks d"

text \<open>Two generators: one that always draws index 0, one that draws 0, 1, 2, ...\<close>

definition zero_rng :: "nat \<Rightarrow> nat" where
  "zero_rng i = 0"

definition count_rng :: "nat \<Rightarrow> nat" where
  "count_rng i = i"

text \<open>The first registration on an empty store, and the state it leaves.\<close>

definition start_world :: world where
  "start_world = \<lparr>db = empty_db, session = Map.empty, flashes = [], rng = count_rng\<rparr>"

definition ada_form :: form where
  "ada_form = map_of [(''name'', ''Ada Lovelace''), (''email'', ''ada@x.com''),
     (''phone'', ''555''), (''college'', ''Analytical''), (''password'', ''engine''),
     (''teamChoice'', ''create''), (''teamName'', '''')]"

definition ada_team :: team where
  "ada_team = \<lparr>t_id = 1, t_team_name = ''Team-Ada'', t_invite_code = ''ABCDEF'',
     t_created_by = None\<rparr>"

definition ada_user :: user where
  "ada_user = \<lparr>u_id = 1, u_name = ''Ada Lovelace'', u_email = ''ada@x.com'', u_phone = ''555'',
     u_college = ''Analytical'', u_password_hash = ''enigne'', u_team_id = Some 1\<rparr>"

definition ada_db :: database where
  "ada_db = empty_db\<lparr>teams := [ada_team], users := [ada_user]\<rparr>"

definition ada_world :: world where
  "ada_world = \<lparr>db = ada_db, session = Map.empty,
     flashes = [(''success'', ''Registration successful. Please login.'')],
     rng = advance 6 count_rng\<rparr>"

text \<open>The code in hand and the generator after \<open>k\<close> turns of the invite-code loop.\<close>

fun nth_try :: "nat \<Rightarrow> string \<Rightarrow> (nat \<Rightarrow> nat) \<Rightarrow> string \<times> (nat \<Rightarrow> nat)" where
  "nth_try 0 code r = (code, r)"
| "nth_try (Suc k) code r = (case generate_invite_code r of (code', r') \<Rightarrow> nth_try k code' r')"

text \<open>
  The state after the first registration when the generator only draws index 0, and the
  form of a second registration.
\<close>

definition stuck_world :: world where
  "stuck_world =
     \<lparr>db = empty_db\<lparr>teams := [ada_team\<lparr>t_invite_code := ''AAAAAA''\<rparr>], users := [ada_user]\<rparr>,
     session = Map.empty,
     flashes = [(''success'', ''Registration successful. Please login.'')],
     rng = zero_rng\<rparr>"

definition bob_form :: form where
  "bob_form = map_of [(''name'', ''Bob''), (''email'', ''bob@x.com''),
     (''phone'', ''556''), (''college'', ''Analytical''), (''password'', ''secret''),
     (''teamChoice'', ''create''), (''teamName'', ''Bobcats'')]"

text \<open>
  A registration that joins with an invite code of no Team: with the e-mail of a
  registered user, and with a new one.
\<close>

definition join_form_ada :: form where
  "join_form_ada = map_of [(''name'', ''Ada again''), (''email'', ''ada@x.com''),
     (''phone'', ''557''), (''college'', ''Analytical''), (''password'', ''engine''),
     (''teamChoice'', ''join''), (''inviteCode'', ''ZZZZZZ'')]"

definition join_form_bob :: form where
  "join_form_bob = map_of [(''name'', ''Bob''), (''email'', ''bob@x.com''),
     (''phone'', ''556''), (''college'', ''Analytical''), (''password'', ''secret''),
     (''teamChoice'', ''join''), (''inviteCode'', ''ZZZZZZ'')]"

text \<open>
  A session of a logged-in participant who is also logged in as admin, and a wrong pair
  of admin credentials.
\<close>

definition both_world :: world where
  "both_world = ada_world\<lparr>session := [''user_id'' \<mapsto> IntV 1, ''is_admin'' \<mapsto> BoolV True]\<rparr>"

definition wrong_admin_form :: form where
  "wrong_admin_form = map_of [(''email'', ''admin@hackathon.com''), (''password'', ''admin124'')]"

text \<open>Ada logged in, and two submissions of hers.\<close>

definition ada_session :: world where
  "ada_session = ada_world\<lparr>session := [''user_id'' \<mapsto> IntV 1]\<rparr>"

definition submit_form1 :: form where
  "submit_form1 = map_of [(''title'', ''Engine''), (''desc'', ''first draft''),
     (''github'', ''https://example.org/a''), (''video'', ''https://example.org/v1'')]"

definition submit_form2 :: form where
  "submit_form2 = map_of [(''title'', ''Engine 2''), (''desc'', ''final''),
     (''github'', ''https://example.org/b''), (''video'', ''https://example.org/v2'')]"

text \<open>
  Several POSTs to /feedback one after the other, each on the state left by the one
  before: the answers, and the final state.
\<close>

fun feedback_posts :: "form list \<Rightarrow> world \<Rightarrow> (error + response) list \<times> world" where
  "feedback_posts [] w = ([], w)"
| "feedback_posts (frm # frms) w =
     (case feedback POST frm w of (out, w') \<Rightarrow>
        (case feedback_posts frms w' of (outs, w'') \<Rightarrow> (out # outs, w'')))"

text \<open>Two feedback forms.\<close>

definition feedback_form1 :: form where
  "feedback_form1 = map_of [(''text'', ''Great venue''), (''rating'', ''5'')]"

definition feedback_form2 :: form where
  "feedback_form2 = map_of [(''text'', ''More coffee''), (''rating'', ''3'')]"

section \<open>The random generator and the invite-code loop\<close>

lemma advance_advance: "advance m (advance n r) = advance (n + m) r"
  by (simp add: advance_def fun_eq_iff ac_simps)

lemma draw_eq: "draw n r = (map (\<lambda>i. chars ! (r i mod 36)) [0..<n], advance n r)"
proof (induction n arbitrary: r)
  case 0
  show ?case by (simp add: advance_def)
next
  case (Suc n)
  have len: "length chars = 36" by (simp add: chars_def)
  have "[0..<Suc n] = 0 # map Suc [0..<n]"
    by (metis upt_conv_Cons map_Suc_upt zero_less_Suc)
  then have "map (\<lambda>i. chars ! (r i mod 36)) [0..<Suc n] =
        chars ! (r 0 mod 36) # map (\<lambda>i. chars ! (r (Suc i) mod 36)) [0..<n]"
    by (simp add: o_def del: upt_Suc)
  then show ?case
    by (simp add: Suc.IH random_choice_def len advance_advance del: upt_Suc)
       (simp add: advance_def)
qed

lemma gen_code:
  "generate_invite_code r = (map (\<lambda>i. chars ! (r i mod 36)) [0..<6], advance 6 r)"
  by (simp add: generate_invite_code_def draw_eq)

lemma gen_code_length: "length (fst (generate_invite_code r)) = 6"
  by (simp add: gen_code)

lemma gen_code_alphabet: "set (fst (generate_invite_code r)) \<subseteq> set chars"
proof -
  have "chars ! (k mod 36) \<in> set chars" for k
    by (rule nth_mem) (simp add: chars_def)
  then show ?thesis by (auto simp: gen_code)
qed

lemma upt6: "[0..<6] = [0, 1, 2, 3, 4, 5]"
  by (simp add: upt_rec)

lemma advance_zero: "advance n zero_rng = zero_rng"
  by (simp add: advance_def zero_rng_def fun_eq_iff)

lemma gen_zero: "generate_invite_code zero_rng = (''AAAAAA'', zero_rng)"
  by (simp add: gen_code upt6 advance_zero) (simp add: zero_rng_def chars_def)

lemma gen_count: "generate_invite_code count_rng = (''ABCDEF'', advance 6 count_rng)"
  by (simp add: gen_code upt6 count_rng_def chars_def)

lemma find_team_by_code_None:
  "find_team_by_code d (Some c) = None \<longleftrightarrow> c \<notin> set (map t_invite_code (teams d))"
  by (auto simp: find_team_by_code_def find_None_iff)

text \<open>A code the loop returns is used by no Team, and has the shape of a generated code.\<close>

lemma unique_code_loop_sound:
  assumes "unique_code_loop d code r = Some y"
  shows "find_team_by_code d (Some (fst y)) = None \<and>
         (length code = 6 \<and> set code \<subseteq> set chars \<longrightarrow>
            length (fst y) = 6 \<and> set (fst y) \<subseteq> set chars)"
proof -
  let ?P = "\<lambda>d code (r :: nat \<Rightarrow> nat) (y :: string \<times> (nat \<Rightarrow> nat)).
     find_team_by_code d (Some (fst y)) = None \<and>
     (length code = 6 \<and> set code \<subseteq> set chars \<longrightarrow>
        length (fst y) = 6 \<and> set (fst y) \<subseteq> set chars)"
  have "?P d code r y"
  proof (rule unique_code_loop.raw_induct[where P = ?P, OF _ assms])
    fix loop d code r y
    assume IH: "\<And>d c r y. loop d c r = Some y \<Longrightarrow> ?P d c r y"
      and body: "(if find_team_by_code d (Some code) \<noteq> None
                  then case generate_invite_code r of (code', r') \<Rightarrow> loop d code' r'
                  else Some (code, r)) = Some y"
    show "?P d code r y"
    proof (cases "find_team_by_code d (Some code) \<noteq> None")
      case True
      obtain c' r' where g: "generate_invite_code r = (c', r')"
        by (cases "generate_invite_code r")
      from True g body have "loop d c' r' = Some y" by simp
      from IH[OF this] gen_code_length[of r] gen_code_alphabet[of r] g
      show ?thesis by simp
    next
      case False
      with body show ?thesis by auto
    qed
  qed
  then show ?thesis .
qed

section \<open>Primary keys\<close>

lemma fold_max_ge: "a \<le> fold max ids (a::nat)"
proof (induction ids arbitrary: a)
  case Nil
  show ?case by simp
next
  case (Cons i ids)
  have "max i a \<le> fold max ids (max i a)" by (rule Cons.IH)
  then show ?case by simp
qed

lemma fold_max_upper: "i \<in> set ids \<Longrightarrow> i \<le> fold max ids (a::nat)"
proof (induction ids arbitrary: a)
  case Nil
  then show ?case by simp
next
  case (Cons j ids)
  show ?case
  proof (cases "i = j")
    case True
    have "max j a \<le> fold max ids (max j a)" by (rule fold_max_ge)
    with True show ?thesis by simp
  next
    case False
    with Cons.prems have "i \<in> set ids" by simp
    from Cons.IH[OF this] show ?thesis by simp
  qed
qed

lemma next_id_fresh: "i \<in> set ids \<Longrightarrow> i < next_id ids"
  using fold_max_upper[of i ids 0] by (simp add: next_id_def)

lemma sorted_ids_append:
  "sorted_wrt (<) ids \<Longrightarrow> sorted_wrt (<) (ids @ [next_id ids])"
  by (auto simp: sorted_wrt_append next_id_fresh)

section \<open>What each route does to the store\<close>

lemma finish_register_db:
  "finish_register n e p c h t d w = (out, w') \<Longrightarrow>
     db w' = db w \<or>
     (out = Inr (Redirect ''login'') \<and> teams (db w') = teams d \<and>
      submissions (db w') = submissions d \<and> feedbacks (db w') = feedbacks d \<and>
      (\<exists>u. users (db w') = users d @ [u] \<and> u_team_id u = t))"
  by (auto simp: finish_register_def insert_user_def flash_def split: sum.splits option.splits)

lemma register_effect:
  assumes "register hp m frm w = Some (out, w')"
  shows "submissions (db w') = submissions (db w) \<and> feedbacks (db w') = feedbacks (db w) \<and>
     (teams (db w') = teams (db w) \<or>
      (\<exists>t. teams (db w') = teams (db w) @ [t] \<and> length (t_invite_code t) = 6 \<and>
           set (t_invite_code t) \<subseteq> set chars \<and>
           t_invite_code t \<notin> set (map t_invite_code (teams (db w)))))"
proof (cases "m = POST \<and> find_user_by_email (db w) (frm ''email'') = None \<and> frm ''password'' \<noteq> None")
  case False
  with assms show ?thesis
    by (auto simp: register_def Let_def flash_def split: if_splits option.splits)
next
  case True
  then obtain pw where pw: "frm ''password'' = Some pw" by auto
  show ?thesis
  proof (cases "frm ''teamChoice'' = Some ''create''")
    case create: True
    show ?thesis
    proof (cases "resolve_team_name (frm ''teamName'') (frm ''name'')")
      case (Inl e)
      with assms True pw create show ?thesis by (simp add: register_def)
    next
      case (Inr tn)
      obtain c0 r0 where g: "generate_invite_code (rng w) = (c0, r0)"
        by (cases "generate_invite_code (rng w)")
      from assms True pw create Inr g obtain code r where
        loop: "unique_code_loop (db w) c0 r0 = Some (code, r)"
        by (auto simp: register_def split: option.splits)
      let ?t = "\<lparr>t_id = next_id (map t_id (teams (db w))), t_team_name = tn,
                 t_invite_code = code, t_created_by = None\<rparr>"
      let ?d = "(db w)\<lparr>teams := teams (db w) @ [?t]\<rparr>"
      from assms True pw create Inr g loop have fin:
        "finish_register (frm ''name'') (frm ''email'') (frm ''phone'') (frm ''college'')
           (hp pw) (Some (next_id (map t_id (teams (db w))))) ?d (w\<lparr>rng := r\<rparr>) = (out, w')"
        by (simp add: register_def Let_def)
      from unique_code_loop_sound[OF loop] gen_code_length[of "rng w"] gen_code_alphabet[of "rng w"] g
      have code: "length code = 6" "set code \<subseteq> set chars"
        "code \<notin> set (map t_invite_code (teams (db w)))"
        by (simp_all add: find_team_by_code_None)
      from finish_register_db[OF fin] show ?thesis
      proof
        assume "db w' = db (w\<lparr>rng := r\<rparr>)"
        then show ?thesis by simp
      next
        assume "out = Inr (Redirect ''login'') \<and> teams (db w') = teams ?d \<and>
          submissions (db w') = submissions ?d \<and> feedbacks (db w') = feedbacks ?d \<and>
          (\<exists>u. users (db w') = users ?d @ [u] \<and>
             u_team_id u = Some (next_id (map t_id (teams (db w)))))"
        then have "teams (db w') = teams (db w) @ [?t]"
          "submissions (db w') = submissions (db w)" "feedbacks (db w') = feedbacks (db w)"
          by simp_all
        with code show ?thesis by simp 
      qed
    qed
  next
    case False
    with assms True pw show ?thesis
      by (auto simp: register_def Let_def flash_def dest!: finish_register_db split: if_splits option.splits)
  qed
qed

lemma seed_core: "same_core (db w) (db (seed_sponsors w))"
  by (simp add: same_core_def seed_sponsors_def)

lemma require_admin_db: "require_admin w = (b, w') \<Longrightarrow> db w' = db w"
  by (auto simp: require_admin_def flash_def split: if_splits)

lemma home_core: "same_core (db w) (db (snd (home w)))"
  by (simp add: same_core_def home_def Let_def)

lemma login_core: "same_core (db w) (db (snd (login cp m frm w)))"
  by (simp add: same_core_def login_def flash_def split: option.splits)

lemma logout_core: "same_core (db w) (db (snd (logout w)))"
  by (simp add: same_core_def logout_def flash_def)

lemma dashboard_core: "same_core (db w) (db (snd (dashboard w)))"
  using seed_core[of w] by (simp add: same_core_def dashboard_def flash_def Let_def split: option.splits)

lemma sponsors_page_core: "same_core (db w) (db (snd (sponsors_page w)))"
  using seed_core[of w] by (simp add: same_core_def sponsors_page_def Let_def)

lemma faq_core: "same_core (db w) (db (snd (faq w)))"
  by (simp add: same_core_def faq_def)

lemma leaderboard_core: "same_core (db w) (db (snd (leaderboard w)))"
  by (simp add: same_core_def leaderboard_def)

lemma admin_login_core: "same_core (db w) (db (snd (admin_login m frm w)))"
  by (simp add: same_core_def admin_login_def flash_def Let_def)

lemma admin_logout_core: "same_core (db w) (db (snd (admin_logout w)))"
  by (simp add: same_core_def admin_logout_def flash_def)

lemma admin_dashboard_core: "same_core (db w) (db (snd (admin_dashboard w)))"
  by (cases "require_admin w")
     (auto simp: same_core_def admin_dashboard_def Let_def dest: require_admin_db split: bool.splits)

lemma admin_add_update_core: "same_core (db w) (db (snd (admin_add_update frm w)))"
  by (cases "require_admin w")
     (auto simp: same_core_def admin_add_update_def Let_def dest: require_admin_db
           split: bool.splits option.splits list.splits)

lemma admin_add_notification_core: "same_core (db w) (db (snd (admin_add_notification frm w)))"
  by (cases "require_admin w")
     (auto simp: same_core_def admin_add_notification_def Let_def dest: require_admin_db
           split: bool.splits option.splits list.splits)

lemma admin_delete_update_core: "same_core (db w) (db (snd (admin_delete_update i w)))"
  by (cases "require_admin w")
     (auto simp: same_core_def admin_delete_update_def dest: require_admin_db
           split: bool.splits option.splits)

lemma admin_delete_notification_core: "same_core (db w) (db (snd (admin_delete_notification i w)))"
  by (cases "require_admin w")
     (auto simp: same_core_def admin_delete_notification_def dest: require_admin_db
           split: bool.splits option.splits)

lemma admin_teams_core: "same_core (db w) (db (snd (admin_teams w)))"
  by (cases "require_admin w")
     (auto simp: same_core_def admin_teams_def dest: require_admin_db split: bool.splits)

lemma map_update_user_id:
  "s_user_id \<circ> (\<lambda>s. if s_id s = i
      then s\<lparr>s_title := t, s_description := d, s_github := g, s_video := v\<rparr> else s) = s_user_id"
  by (auto simp: fun_eq_iff)

lemma find_user_id_None: "find (\<lambda>s. s_user_id s = i) rows = None \<Longrightarrow> i \<notin> set (map s_user_id rows)"
  by (auto simp: find_None_iff)

lemma submit_effect:
  "teams (db (snd (submit m frm w))) = teams (db w) \<and>
   feedbacks (db (snd (submit m frm w))) = feedbacks (db w) \<and>
   (distinct (map s_user_id (submissions (db w))) \<longrightarrow>
      distinct (map s_user_id (submissions (db (snd (submit m frm w))))))"
  by (auto simp: submit_def Let_def flash_def map_update_user_id
        dest!: find_user_id_None split: option.splits)

lemma feedback_effect:
  "teams (db (snd (feedback m frm w))) = teams (db w) \<and>
   submissions (db (snd (feedback m frm w))) = submissions (db w) \<and>
   (sorted_wrt (<) (map f_id (feedbacks (db w))) \<longrightarrow>
      sorted_wrt (<) (map f_id (feedbacks (db (snd (feedback m frm w))))))"
  by (auto simp: feedback_def Let_def flash_def sorted_ids_append split: option.splits)

lemma handle_effect:
  assumes "handle hp cp req w = Some (out, w')"
  shows "(teams (db w') = teams (db w) \<or>
      (\<exists>t. teams (db w') = teams (db w) @ [t] \<and> length (t_invite_code t) = 6 \<and>
           set (t_invite_code t) \<subseteq> set chars \<and>
           t_invite_code t \<notin> set (map t_invite_code (teams (db w))))) \<and>
     (distinct (map s_user_id (submissions (db w))) \<longrightarrow>
        distinct (map s_user_id (submissions (db w')))) \<and>
     (sorted_wrt (<) (map f_id (feedbacks (db w))) \<longrightarrow>
        sorted_wrt (<) (map f_id (feedbacks (db w'))))"
proof (cases req)
  case (Register m frm)
  with assms have "register hp m frm w = Some (out, w')" by simp
  from register_effect[OF this] show ?thesis by auto
next
  case (Submit m frm)
  with assms have "w' = snd (submit m frm w)" by auto
  with submit_effect[of m frm w] show ?thesis by simp
next
  case (Feedback m frm)
  with assms have "w' = snd (feedback m frm w)" by auto
  with feedback_effect[of m frm w] show ?thesis by simp
next
  case Home
  with assms have "w' = snd (home w)" by auto
  with home_core[of w] show ?thesis by (simp add: same_core_def)
next
  case (Login m frm)
  with assms have "w' = snd (login cp m frm w)" by auto
  with login_core[of w cp m frm] show ?thesis by (simp add: same_core_def)
next
  case Logout
  with assms have "w' = snd (logout w)" by auto
  with logout_core[of w] show ?thesis by (simp add: same_core_def)
next
  case Dashboard
  with assms have "w' = snd (dashboard w)" by auto
  with dashboard_core[of w] show ?thesis by (simp add: same_core_def)
next
  case SponsorsPage
  with assms have "w' = snd (sponsors_page w)" by auto
  with sponsors_page_core[of w] show ?thesis by (simp add: same_core_def)
next
  case Faq
  with assms have "w' = snd (faq w)" by auto
  with faq_core[of w] show ?thesis by (simp add: same_core_def)
next
  case Leaderboard
  with assms have "w' = snd (leaderboard w)" by auto
  with leaderboard_core[of w] show ?thesis by (simp add: same_core_def)
next
  case (AdminLogin m frm)
  with assms have "w' = snd (admin_login m frm w)" by auto
  with admin_login_core[of w m frm] show ?thesis by (simp add: same_core_def)
next
  case AdminLogout
  with assms have "w' = snd (admin_logout w)" by auto
  with admin_logout_core[of w] show ?thesis by (simp add: same_core_def)
next
  case AdminDashboard
  with assms have "w' = snd (admin_dashboard w)" by auto
  with admin_dashboard_core[of w] show ?thesis by (simp add: same_core_def)
next
  case (AdminAddUpdate frm)
  with assms have "w' = snd (admin_add_update frm w)" by auto
  with admin_add_update_core[of w frm] show ?thesis by (simp add: same_core_def)
next
  case (AdminAddNotification frm)
  with assms have "w' = snd (admin_add_notification frm w)" by auto
  with admin_add_notification_core[of w frm] show ?thesis by (simp add: same_core_def)
next
  case (AdminDeleteUpdate i)
  with assms have "w' = snd (admin_delete_update i w)" by auto
  with admin_delete_update_core[of w i] show ?thesis by (simp add: same_core_def)
next
  case (AdminDeleteNotification i)
  with assms have "w' = snd (admin_delete_notification i w)" by auto
  with admin_delete_notification_core[of w i] show ?thesis by (simp add: same_core_def)
next
  case AdminTeams
  with assms have "w' = snd (admin_teams w)" by auto
  with admin_teams_core[of w] show ?thesis by (simp add: same_core_def)
qed

lemma reachable_codes:
  "reachable d \<Longrightarrow>
     (\<forall>t \<in> set (teams d). length (t_invite_code t) = 6 \<and> set (t_invite_code t) \<subseteq> set chars) \<and>
     distinct (map t_invite_code (teams d))"
proof (induction rule: reachable.induct)
  case reachable_init
  show ?case by (simp add: empty_db_def)
next
  case (reachable_step w hp cp req out w')
  from handle_effect[OF reachable_step.hyps(2)]
  have "teams (db w') = teams (db w) \<or>
      (\<exists>t. teams (db w') = teams (db w) @ [t] \<and> length (t_invite_code t) = 6 \<and>
           set (t_invite_code t) \<subseteq> set chars \<and>
           t_invite_code t \<notin> set (map t_invite_code (teams (db w))))"
    by (rule conjunct1)
  then show ?case
  proof
    assume "teams (db w') = teams (db w)"
    with reachable_step.IH show ?thesis by simp
  next
    assume "\<exists>t. teams (db w') = teams (db w) @ [t] \<and> length (t_invite_code t) = 6 \<and>
           set (t_invite_code t) \<subseteq> set chars \<and>
           t_invite_code t \<notin> set (map t_invite_code (teams (db w)))"
    then obtain t where t: "teams (db w') = teams (db w) @ [t]" "length (t_invite_code t) = 6"
      "set (t_invite_code t) \<subseteq> set chars"
      "t_invite_code t \<notin> set (map t_invite_code (teams (db w)))"
      by blast
    from reachable_step.IH have old:
      "\<forall>t \<in> set (teams (db w)). length (t_invite_code t) = 6 \<and> set (t_invite_code t) \<subseteq> set chars"
      "distinct (map t_invite_code (teams (db w)))"
      by simp_all
    have "\<forall>x \<in> set (teams (db w) @ [t]). length (t_invite_code x) = 6 \<and> set (t_invite_code x) \<subseteq> set chars"
      using old(1) t(2,3) by simp
    moreover have "distinct (map t_invite_code (teams (db w) @ [t]))"
      using old(2) t(4) by simp
    ultimately show ?thesis by (simp only: t(1)) 
  qed
qed

lemma reachable_submissions:
  "reachable d \<Longrightarrow> distinct (map s_user_id (submissions d))"
proof (induction rule: reachable.induct)
  case reachable_init
  show ?case by (simp add: empty_db_def)
next
  case (reachable_step w hp cp req out w')
  from handle_effect[OF reachable_step.hyps(2)] reachable_step.IH
  show ?case by simp
qed

lemma reachable_feedbacks:
  "reachable d \<Longrightarrow> sorted_wrt (<) (map f_id (feedbacks d))"
proof (induction rule: reachable.induct)
  case reachable_init
  show ?case by (simp add: empty_db_def)
next
  case (reachable_step w hp cp req out w')
  from handle_effect[OF reachable_step.hyps(2)] reachable_step.IH
  show ?case by simp
qed

section \<open>The sample registration\<close>

lemma str_split_ada: "str_split ''Ada Lovelace'' = [''Ada'', ''Lovelace'']"
  by (simp add: str_split_def isspace_def)

lemma loop_empty: "unique_code_loop empty_db code r = Some (code, r)"
  by (subst unique_code_loop.simps) (simp add: empty_db_def find_team_by_code_def)

lemma empty_db_simps: "teams empty_db = []" "users empty_db = []"
  "find_user_by_email empty_db e = None"
  by (simp_all add: empty_db_def find_user_by_email_def)

lemma ada_form_simps:
  "ada_form ''password'' = Some ''engine''" "ada_form ''teamChoice'' = Some ''create''"
  "ada_form ''name'' = Some ''Ada Lovelace''" "ada_form ''email'' = Some ''ada@x.com''"
  "ada_form ''phone'' = Some ''555''" "ada_form ''college'' = Some ''Analytical''"
  "ada_form ''teamName'' = Some []"
  by (simp_all add: ada_form_def)

lemma register_ada: "register rev POST ada_form start_world = Some (Inr (Redirect ''login''), ada_world)"
proof -
  have n: "resolve_team_name (Some []) (Some ''Ada Lovelace'') = Inr ''Team-Ada''"
    by (simp add: resolve_team_name_def str_split_ada)
  show ?thesis
    by (simp add: register_def start_world_def ada_form_simps empty_db_simps gen_count loop_empty n
          Let_def finish_register_def insert_user_def flash_def next_id_def
          ada_world_def ada_db_def ada_team_def ada_user_def)
qed

lemma reachable_ada: "reachable ada_db"
proof -
  have "reachable (db start_world)" by (simp add: start_world_def reachable_init)
  moreover have "handle rev (=) (Register POST ada_form) start_world = Some (Inr (Redirect ''login''), ada_world)"
    by (simp add: register_ada)
  ultimately have "reachable (db ada_world)" by (rule reachable_step)
  then show ?thesis by (simp add: ada_world_def)
qed

section \<open>Claims\<close>

lemma valid_code_iff: "valid_code c \<longleftrightarrow> length c = 6 \<and> set c \<subseteq> set chars"
  by (simp add: valid_code_def chars_def)

lemma codes_ok_iff:
  "codes_ok d \<longleftrightarrow>
     (\<forall>t \<in> set (teams d). length (t_invite_code t) = 6 \<and> set (t_invite_code t) \<subseteq> set chars) \<and>
     distinct (map t_invite_code (teams d))"
  by (simp add: codes_ok_def list_all_iff valid_code_iff)

lemma register_codes_ok:
  assumes "codes_ok (db w)" and "register hp m frm w = Some (out, w')"
  shows "codes_ok (db w')"
proof -
  from register_effect[OF assms(2)]
  have "teams (db w') = teams (db w) \<or>
      (\<exists>t. teams (db w') = teams (db w) @ [t] \<and> length (t_invite_code t) = 6 \<and>
           set (t_invite_code t) \<subseteq> set chars \<and>
           t_invite_code t \<notin> set (map t_invite_code (teams (db w))))"
    by simp
  then show ?thesis
  proof
    assume "teams (db w') = teams (db w)"
    with assms(1) show ?thesis by (simp add: codes_ok_iff)
  next
    assume "\<exists>t. teams (db w') = teams (db w) @ [t] \<and> length (t_invite_code t) = 6 \<and>
           set (t_invite_code t) \<subseteq> set chars \<and>
           t_invite_code t \<notin> set (map t_invite_code (teams (db w)))"
    then obtain t where t: "teams (db w') = teams (db w) @ [t]" "length (t_invite_code t) = 6"
      "set (t_invite_code t) \<subseteq> set chars"
      "t_invite_code t \<notin> set (map t_invite_code (teams (db w)))"
      by blast
    from assms(1) t(2,3,4) have "codes_ok (db w\<lparr>teams := teams (db w) @ [t]\<rparr>)"
      by (simp add: codes_ok_iff)
    then show ?thesis by (simp add: codes_ok_iff t(1))
  qed
qed

text \<open>
  C1. In every store reachable from the empty one, every Team's invite code has exactly
  6 characters, each from A-Z and 0-9, and no two Team rows share a code; a registration
  (the only route that creates a Team) takes a store with this property to a store with
  this property.
\<close>

theorem invite_codes_invariant:
  "(reachable d \<longrightarrow> codes_ok d) \<and>
   (codes_ok (db w) \<and> register hp m frm w = Some (out, w') \<longrightarrow> codes_ok (db w'))"
proof (intro conjI impI)
  assume "reachable d"
  from reachable_codes[OF this] show "codes_ok d" unfolding codes_ok_iff .
next
  assume "codes_ok (db w) \<and> register hp m frm w = Some (out, w')"
  then show "codes_ok (db w')" using register_codes_ok by blast
qed

theorem invite_codes_invariant_witness:
  "reachable ada_db \<and> codes_ok ada_db \<and> teams ada_db = [ada_team] \<and>
   codes_ok (db start_world) \<and>
   register rev POST ada_form start_world = Some (Inr (Redirect ''login''), ada_world) \<and>
   codes_ok (db ada_world)"
proof -
  have e: "codes_ok (db start_world)"
    by (simp add: start_world_def codes_ok_def empty_db_def)
  have t: "teams ada_db = [ada_team]"
    by (simp add: ada_db_def)
  from invite_codes_invariant[of ada_db start_world rev POST ada_form
      "Inr (Redirect ''login'')" ada_world] reachable_ada register_ada e t
  show ?thesis by blast
qed

lemma register_ada_zero:
  "register rev POST ada_form (start_world\<lparr>rng := zero_rng\<rparr>) = Some (Inr (Redirect ''login''), stuck_world)"
proof -
  have n: "resolve_team_name (Some []) (Some ''Ada Lovelace'') = Inr ''Team-Ada''"
    by (simp add: resolve_team_name_def str_split_ada)
  show ?thesis
    by (simp add: register_def start_world_def ada_form_simps empty_db_simps gen_zero loop_empty n
          Let_def finish_register_def insert_user_def flash_def next_id_def
          stuck_world_def ada_team_def ada_user_def)
qed

lemma reachable_stuck: "reachable (db stuck_world)"
proof -
  have "reachable (db (start_world\<lparr>rng := zero_rng\<rparr>))" by (simp add: start_world_def reachable_init)
  moreover have "handle rev (=) (Register POST ada_form) (start_world\<lparr>rng := zero_rng\<rparr>) = Some (Inr (Redirect ''login''), stuck_world)"
    by (simp add: register_ada_zero)
  ultimately show ?thesis by (rule reachable_step)
qed

text \<open>The loop returns at the first try whose code no Team uses.\<close>

lemma unique_code_loop_first_fresh:
  assumes "\<forall>j<k. find_team_by_code d (Some (fst (nth_try j code r))) \<noteq> None"
    and "find_team_by_code d (Some (fst (nth_try k code r))) = None"
  shows "unique_code_loop d code r = Some (nth_try k code r)"
  using assms
proof (induction k arbitrary: code r)
  case 0
  then show ?case by (subst unique_code_loop.simps) simp
next
  case (Suc k)
  obtain c' r' where g: "generate_invite_code r = (c', r')"
    by (cases "generate_invite_code r")
  from Suc.prems(1) have taken: "find_team_by_code d (Some code) \<noteq> None"
    by (metis fst_conv nth_try.simps(1) zero_less_Suc)
  have "\<forall>j<k. find_team_by_code d (Some (fst (nth_try j c' r'))) \<noteq> None"
  proof (intro allI impI)
    fix j assume "j < k"
    then have "Suc j < Suc k" by simp
    with Suc.prems(1) have "find_team_by_code d (Some (fst (nth_try (Suc j) code r))) \<noteq> None"
      by blast
    with g show "find_team_by_code d (Some (fst (nth_try j c' r'))) \<noteq> None" by simp
  qed
  moreover from Suc.prems(2) g have "find_team_by_code d (Some (fst (nth_try k c' r'))) = None"
    by simp
  ultimately have "unique_code_loop d c' r' = Some (nth_try k c' r')" by (rule Suc.IH)
  with taken g show ?case by (subst unique_code_loop.simps) simp
qed

text \<open>A run of the loop that returns has met a try whose code no Team uses.\<close>

lemma unique_code_loop_returns:
  assumes "unique_code_loop d code r = Some y"
  shows "\<exists>k. find_team_by_code d (Some (fst (nth_try k code r))) = None"
proof -
  let ?P = "\<lambda>d code (r :: nat \<Rightarrow> nat) (y :: string \<times> (nat \<Rightarrow> nat)).
     \<exists>k. find_team_by_code d (Some (fst (nth_try k code r))) = None"
  have "?P d code r y"
  proof (rule unique_code_loop.raw_induct[where P = ?P, OF _ assms])
    fix loop d code r y
    assume IH: "\<And>d c r y. loop d c r = Some y \<Longrightarrow> ?P d c r y"
      and body: "(if find_team_by_code d (Some code) \<noteq> None
                  then case generate_invite_code r of (code', r') \<Rightarrow> loop d code' r'
                  else Some (code, r)) = Some y"
    show "?P d code r y"
    proof (cases "find_team_by_code d (Some code) \<noteq> None")
      case True
      obtain c' r' where g: "generate_invite_code r = (c', r')"
        by (cases "generate_invite_code r")
      from True g body have "loop d c' r' = Some y" by simp
      from IH[OF this] obtain k where
        "find_team_by_code d (Some (fst (nth_try k c' r'))) = None" by blast
      with g have "find_team_by_code d (Some (fst (nth_try (Suc k) code r))) = None" by simp
      then show ?thesis by blast
    next
      case False
      then have "find_team_by_code d (Some (fst (nth_try 0 code r))) = None" by simp
      then show ?thesis by blast
    qed
  qed
  then show ?thesis .
qed

text \<open>
  C2 (as amended). The invite-code loop has no retry cap and no error result. It returns
  exactly when some try yields a code that no Team uses, and then returns the first such
  try; when every try collides with an existing Team, it never returns.
\<close>

theorem unique_code_loop_unbounded:
  "((\<forall>j<k. find_team_by_code d (Some (fst (nth_try j code r))) \<noteq> None) \<and>
     find_team_by_code d (Some (fst (nth_try k code r))) = None
       \<longrightarrow> unique_code_loop d code r = Some (nth_try k code r)) \<and>
   ((\<forall>k. find_team_by_code d (Some (fst (nth_try k code r))) \<noteq> None)
       \<longrightarrow> unique_code_loop d code r = None)"
proof (intro conjI impI)
  assume "(\<forall>j<k. find_team_by_code d (Some (fst (nth_try j code r))) \<noteq> None) \<and>
     find_team_by_code d (Some (fst (nth_try k code r))) = None"
  then show "unique_code_loop d code r = Some (nth_try k code r)"
    using unique_code_loop_first_fresh by blast
next
  assume a: "\<forall>k. find_team_by_code d (Some (fst (nth_try k code r))) \<noteq> None"
  show "unique_code_loop d code r = None"
  proof (cases "unique_code_loop d code r")
    case None
    then show ?thesis .
  next
    case (Some y)
    from unique_code_loop_returns[OF this] a show ?thesis by blast
  qed
qed

lemma nth_try_zero: "nth_try k ''AAAAAA'' zero_rng = (''AAAAAA'', zero_rng)"
  by (induction k) (simp_all add: gen_zero)

lemma stuck_taken: "find_team_by_code (db stuck_world) (Some ''AAAAAA'') \<noteq> None"
  by (simp add: stuck_world_def find_team_by_code_def ada_team_def)

lemma loop_stuck: "unique_code_loop (db stuck_world) ''AAAAAA'' zero_rng = None"
proof (cases "unique_code_loop (db stuck_world) ''AAAAAA'' zero_rng")
  case None
  then show ?thesis .
next
  case (Some y)
  from unique_code_loop_returns[OF this] stuck_taken show ?thesis
    by (simp add: nth_try_zero)
qed

lemma bob_form_simps:
  "bob_form ''password'' = Some ''secret''" "bob_form ''teamChoice'' = Some ''create''"
  "bob_form ''name'' = Some ''Bob''" "bob_form ''email'' = Some ''bob@x.com''"
  "bob_form ''phone'' = Some ''556''" "bob_form ''college'' = Some ''Analytical''"
  "bob_form ''teamName'' = Some ''Bobcats''"
  by (simp_all add: bob_form_def)

text \<open>
  C2 as stated fails: in the store left by one registration, with a generator that keeps
  drawing index 0, a second registration on the create path never returns.
\<close>

theorem invite_code_loop_counterexample:
  "reachable (db stuck_world) \<and> register rev POST bob_form stuck_world = None"
proof -
  have e: "find_user_by_email (db stuck_world) (Some ''bob@x.com'') = None"
    by (simp add: find_user_by_email_def stuck_world_def ada_user_def)
  have r: "rng stuck_world = zero_rng" by (simp add: stuck_world_def)
  have "register rev POST bob_form stuck_world = None"
    by (simp add: register_def bob_form_simps e r gen_zero loop_stuck resolve_team_name_def)
  with reachable_stuck show ?thesis by simp
qed

lemma gen_count6: "generate_invite_code (advance 6 count_rng) = (''GHIJKL'', advance 12 count_rng)"
  by (simp add: gen_code upt6 advance_advance) (simp add: advance_def count_rng_def chars_def)

theorem unique_code_loop_unbounded_witness:
  "unique_code_loop ada_db ''ABCDEF'' (advance 6 count_rng) = Some (''GHIJKL'', advance 12 count_rng) \<and>
   unique_code_loop (db stuck_world) ''AAAAAA'' zero_rng = None"
proof -
  have t0: "find_team_by_code ada_db (Some ''ABCDEF'') \<noteq> None"
    by (simp add: find_team_by_code_def ada_db_def ada_team_def)
  have t1: "find_team_by_code ada_db (Some ''GHIJKL'') = None"
    by (simp add: find_team_by_code_def ada_db_def ada_team_def)
  have n1: "nth_try (Suc 0) ''ABCDEF'' (advance 6 count_rng) = (''GHIJKL'', advance 12 count_rng)"
    by (simp add: gen_count6)
  have a: "unique_code_loop ada_db ''ABCDEF'' (advance 6 count_rng) = Some (''GHIJKL'', advance 12 count_rng)"
    using unique_code_loop_unbounded[of "Suc 0" ada_db "''ABCDEF''" "advance 6 count_rng"] t0 t1 n1
    by simp
  have b: "unique_code_loop (db stuck_world) ''AAAAAA'' zero_rng = None"
    using unique_code_loop_unbounded[of _ "db stuck_world" "''AAAAAA''" zero_rng] stuck_taken
    by (simp add: nth_try_zero)
  from a b show ?thesis by simp
qed

lemma find_user_by_email_None:
  "find_user_by_email d (Some e) = None \<longleftrightarrow> e \<notin> set (map u_email (users d))"
  by (auto simp: find_user_by_email_def find_None_iff)

text \<open>
  C3. A registration whose e-mail belongs to an existing User is answered with the
  notice that the e-mail is registered and the redirect to the login view; the store,
  and so the User table, is as before.
\<close>

theorem register_duplicate_email:
  assumes "frm ''email'' = Some e" and "e \<in> set (map u_email (users (db w)))"
  shows "register hashpw POST frm w =
           Some (Inr (Redirect ''login''),
                 w\<lparr>flashes := flashes w @ [(''error'', ''Email already registered. Please login.'')]\<rparr>)"
proof -
  from assms have "find_user_by_email (db w) (frm ''email'') \<noteq> None"
    by (simp only: find_user_by_email_None) simp
  then show ?thesis by (simp add: register_def flash_def)
qed

lemma join_form_ada_simps:
  "join_form_ada ''email'' = Some ''ada@x.com''" "join_form_ada ''teamChoice'' = Some ''join''"
  "join_form_ada ''inviteCode'' = Some ''ZZZZZZ''" "join_form_ada ''password'' = Some ''engine''"
  by (simp_all add: join_form_ada_def)

lemma join_form_bob_simps:
  "join_form_bob ''email'' = Some ''bob@x.com''" "join_form_bob ''teamChoice'' = Some ''join''"
  "join_form_bob ''inviteCode'' = Some ''ZZZZZZ''" "join_form_bob ''password'' = Some ''secret''"
  by (simp_all add: join_form_bob_def)

lemma ada_world_users: "map u_email (users (db ada_world)) = [''ada@x.com'']"
  by (simp add: ada_world_def ada_db_def ada_user_def)

theorem register_duplicate_email_witness:
  "join_form_ada ''email'' = Some ''ada@x.com'' \<and>
   ''ada@x.com'' \<in> set (map u_email (users (db ada_world))) \<and>
   register rev POST join_form_ada ada_world =
     Some (Inr (Redirect ''login''),
           ada_world\<lparr>flashes := flashes ada_world @
              [(''error'', ''Email already registered. Please login.'')]\<rparr>)"
proof -
  have a: "join_form_ada ''email'' = Some ''ada@x.com''" by (rule join_form_ada_simps)
  have b: "''ada@x.com'' \<in> set (map u_email (users (db ada_world)))"
    by (simp add: ada_world_users)
  from register_duplicate_email[of join_form_ada "''ada@x.com''" ada_world rev] a b
  show ?thesis by simp
qed

text \<open>
  C4. Take a registration with team choice join whose invite code matches no Team, and
  which reaches the join branch: its e-mail is not registered and its password was sent,
  the two steps that come first. It is answered with the notice of the invalid invite
  code and the redirect back to the registration form, and the store is as before, so
  no User row is created: only the notice is queued.
\<close>

theorem register_join_unknown_code:
  assumes "frm ''teamChoice'' = Some ''join''"
    and "find_team_by_code (db w) (frm ''inviteCode'') = None"
    and "find_user_by_email (db w) (frm ''email'') = None"
    and "frm ''password'' \<noteq> None"
  shows "register hashpw POST frm w =
           Some (Inr (Redirect ''register''),
                 w\<lparr>flashes := flashes w @ [(''error'', ''Invalid invite code!'')]\<rparr>)"
proof -
  from assms(4) obtain pw where "frm ''password'' = Some pw" by auto
  with assms(1,2,3) show ?thesis by (simp add: register_def flash_def)
qed

theorem register_join_unknown_code_witness:
  "join_form_bob ''teamChoice'' = Some ''join'' \<and>
   find_team_by_code (db ada_world) (join_form_bob ''inviteCode'') = None \<and>
   find_user_by_email (db ada_world) (join_form_bob ''email'') = None \<and>
   join_form_bob ''password'' \<noteq> None \<and>
   register rev POST join_form_bob ada_world =
     Some (Inr (Redirect ''register''),
           ada_world\<lparr>flashes := flashes ada_world @ [(''error'', ''Invalid invite code!'')]\<rparr>)"
proof -
  have a: "join_form_bob ''teamChoice'' = Some ''join''" by (rule join_form_bob_simps)
  have b: "find_team_by_code (db ada_world) (join_form_bob ''inviteCode'') = None"
    by (simp add: join_form_bob_simps find_team_by_code_def ada_world_def ada_db_def ada_team_def)
  have c: "find_user_by_email (db ada_world) (join_form_bob ''email'') = None"
    by (simp add: join_form_bob_simps find_user_by_email_def ada_world_def ada_db_def ada_user_def)
  have d: "join_form_bob ''password'' \<noteq> None" by (simp add: join_form_bob_simps)
  from register_join_unknown_code[of join_form_bob ada_world rev, OF a b c d] a b c d
  show ?thesis by simp
qed

lemma distinct_key_filter:
  "distinct (map k xs) \<Longrightarrow> x \<in> set xs \<Longrightarrow> filter (\<lambda>y. k y = k x) xs = [x]"
proof (induction xs)
  case Nil
  then show ?case by simp
next
  case (Cons a xs)
  show ?case
  proof (cases "a = x")
    case True
    from Cons.prems(1) have "k a \<notin> k ` set xs" by simp
    then have "filter (\<lambda>y. k y = k a) xs = []"
      unfolding filter_empty_conv by (metis imageI)
    with True show ?thesis by simp
  next
    case False
    with Cons.prems have x: "x \<in> set xs" by simp
    with Cons.prems(1) have "k a \<noteq> k x" by auto
    with Cons.IH Cons.prems(1) x show ?thesis by simp
  qed
qed

lemma get_current_user_frame:
  "session w' = session w \<Longrightarrow> users (db w') = users (db w) \<Longrightarrow>
     get_current_user w' = get_current_user w"
  by (simp add: get_current_user_def get_user_def split: option.splits)

lemma find_SomeD: "find P xs = Some x \<Longrightarrow> x \<in> set xs \<and> P x"
  by (auto simp: find_Some_iff)

text \<open>One POST to /submit by a logged-in user, with all four fields in the form.\<close>

lemma submit_post:
  assumes u: "get_current_user w = Some u"
    and f: "frm ''title'' = Some t" "frm ''desc'' = Some d" "frm ''github'' = Some g"
      "frm ''video'' = Some v"
    and dist: "distinct (map s_user_id (submissions (db w)))"
  shows "\<exists>w' i. submit POST frm w = (Inr (Redirect ''dashboard''), w') \<and>
     filter (\<lambda>s. s_user_id s = u_id u) (submissions (db w')) =
       [\<lparr>s_id = i, s_title = t, s_description = d, s_github = g, s_video = v,
         s_user_id = u_id u\<rparr>] \<and>
     (filter (\<lambda>s. s_user_id s = u_id u) (submissions (db w)) = [] \<longrightarrow>
        length (submissions (db w')) = Suc (length (submissions (db w)))) \<and>
     (filter (\<lambda>s. s_user_id s = u_id u) (submissions (db w)) \<noteq> [] \<longrightarrow>
        map s_id (submissions (db w')) = map s_id (submissions (db w))) \<and>
     get_current_user w' = Some u \<and>
     distinct (map s_user_id (submissions (db w')))"
proof (cases "find (\<lambda>s. s_user_id s = u_id u) (submissions (db w))")
  case None
  let ?rows = "submissions (db w)"
  let ?new = "\<lparr>s_id = next_id (map s_id ?rows), s_title = t, s_description = d,
                s_github = g, s_video = v, s_user_id = u_id u\<rparr>"
  let ?w' = "flash ''Submission saved!'' ''success'' (w\<lparr>db := (db w)\<lparr>submissions := ?rows @ [?new]\<rparr>\<rparr>)"
  from None have none: "filter (\<lambda>s. s_user_id s = u_id u) ?rows = []"
    by (auto simp: find_None_iff filter_empty_conv)
  from None have notin: "u_id u \<notin> set (map s_user_id ?rows)"
    by (auto simp: find_None_iff)
  have r: "submit POST frm w = (Inr (Redirect ''dashboard''), ?w')"
    using u f None by (simp add: submit_def Let_def)
  have rows': "submissions (db ?w') = ?rows @ [?new]" by (simp add: flash_def)
  have cu: "get_current_user ?w' = Some u"
    using u get_current_user_frame[of ?w' w] by (simp add: flash_def)
  have "filter (\<lambda>s. s_user_id s = u_id u) (submissions (db ?w')) = [?new]"
    using none by (simp add: rows')
  moreover have "distinct (map s_user_id (submissions (db ?w')))"
    using dist notin by (simp add: rows')
  moreover have "length (submissions (db ?w')) = Suc (length ?rows)" by (simp add: rows')
  ultimately show ?thesis using r cu none by blast
next
  case (Some sub)
  let ?rows = "submissions (db w)"
  let ?upd = "\<lambda>s. if s_id s = s_id sub
      then s\<lparr>s_title := t, s_description := d, s_github := g, s_video := v\<rparr> else s"
  let ?w' = "flash ''Submission saved!'' ''success'' (w\<lparr>db := (db w)\<lparr>submissions := map ?upd ?rows\<rparr>\<rparr>)"
  from find_SomeD[OF Some] have sub: "sub \<in> set ?rows" "s_user_id sub = u_id u" by simp_all
  have r: "submit POST frm w = (Inr (Redirect ''dashboard''), ?w')"
    using u f Some by (simp add: submit_def Let_def)
  have rows': "submissions (db ?w') = map ?upd ?rows" by (simp add: flash_def)
  have cu: "get_current_user ?w' = Some u"
    using u get_current_user_frame[of ?w' w] by (simp add: flash_def)
  have keep: "s_user_id (?upd s) = s_user_id s" for s by simp
  have "filter (\<lambda>s. s_user_id s = u_id u) (map ?upd ?rows) =
        map ?upd (filter (\<lambda>s. s_user_id s = u_id u) ?rows)"
    by (simp only: filter_map o_def keep)
  also have "filter (\<lambda>s. s_user_id s = u_id u) ?rows = [sub]"
    using distinct_key_filter[OF dist sub(1)] sub(2) by simp
  also have "map ?upd [sub] = [\<lparr>s_id = s_id sub, s_title = t, s_description = d, s_github = g,
      s_video = v, s_user_id = u_id u\<rparr>]"
    using sub(2) by simp
  finally have one: "filter (\<lambda>s. s_user_id s = u_id u) (submissions (db ?w')) =
      [\<lparr>s_id = s_id sub, s_title = t, s_description = d, s_github = g,
      s_video = v, s_user_id = u_id u\<rparr>]"
    by (simp only: rows')
  have ids: "map s_id (submissions (db ?w')) = map s_id ?rows"
    by (simp add: rows' o_def)
  have "map s_user_id (map ?upd ?rows) = map s_user_id ?rows"
    by (simp add: map_update_user_id)
  with dist have d': "distinct (map s_user_id (submissions (db ?w')))"
    by (simp only: rows')
  have ne: "filter (\<lambda>s. s_user_id s = u_id u) ?rows \<noteq> []"
    using sub by (auto simp: filter_empty_conv)
  from r one ids cu d' ne show ?thesis by blast
qed

text \<open>
  C5. In a reachable store, two POSTs to /submit by the same logged-in user, each with
  its four fields, both succeed; afterwards the user has exactly one Submission row, and
  its title, description, github and video are those of the second call. The first call
  inserts a row when the user had none, and the second call changes the fields of the
  existing row in place: the table keeps its length and its ids.
\<close>

theorem submit_twice:
  assumes "reachable (db w)" and "get_current_user w = Some u"
    and "frm1 ''title'' \<noteq> None \<and> frm1 ''desc'' \<noteq> None \<and> frm1 ''github'' \<noteq> None \<and>
         frm1 ''video'' \<noteq> None"
    and "frm2 ''title'' = Some t \<and> frm2 ''desc'' = Some d \<and> frm2 ''github'' = Some g \<and>
         frm2 ''video'' = Some v"
  shows "\<exists>w1 w2 i. submit POST frm1 w = (Inr (Redirect ''dashboard''), w1) \<and>
     submit POST frm2 w1 = (Inr (Redirect ''dashboard''), w2) \<and>
     filter (\<lambda>s. s_user_id s = u_id u) (submissions (db w2)) =
       [\<lparr>s_id = i, s_title = t, s_description = d, s_github = g, s_video = v,
         s_user_id = u_id u\<rparr>] \<and>
     (filter (\<lambda>s. s_user_id s = u_id u) (submissions (db w)) = [] \<longrightarrow>
        length (submissions (db w1)) = Suc (length (submissions (db w)))) \<and>
     length (submissions (db w2)) = length (submissions (db w1)) \<and>
     map s_id (submissions (db w2)) = map s_id (submissions (db w1))"
proof -
  from assms(3) obtain t1 d1 g1 v1 where f1: "frm1 ''title'' = Some t1" "frm1 ''desc'' = Some d1"
    "frm1 ''github'' = Some g1" "frm1 ''video'' = Some v1" by auto
  from assms(4) have f2: "frm2 ''title'' = Some t" "frm2 ''desc'' = Some d"
    "frm2 ''github'' = Some g" "frm2 ''video'' = Some v" by simp_all
  from reachable_submissions[OF assms(1)]
  have dist: "distinct (map s_user_id (submissions (db w)))" .
  from submit_post[OF assms(2) f1 dist] obtain w1 i1 where
    1: "submit POST frm1 w = (Inr (Redirect ''dashboard''), w1)"
    "filter (\<lambda>s. s_user_id s = u_id u) (submissions (db w1)) =
       [\<lparr>s_id = i1, s_title = t1, s_description = d1, s_github = g1, s_video = v1,
         s_user_id = u_id u\<rparr>]"
    "filter (\<lambda>s. s_user_id s = u_id u) (submissions (db w)) = [] \<longrightarrow>
        length (submissions (db w1)) = Suc (length (submissions (db w)))"
    "get_current_user w1 = Some u" "distinct (map s_user_id (submissions (db w1)))"
    by blast
  from submit_post[OF 1(4) f2 1(5)] obtain w2 i2 where
    2: "submit POST frm2 w1 = (Inr (Redirect ''dashboard''), w2)"
    "filter (\<lambda>s. s_user_id s = u_id u) (submissions (db w2)) =
       [\<lparr>s_id = i2, s_title = t, s_description = d, s_github = g, s_video = v,
         s_user_id = u_id u\<rparr>]"
    "filter (\<lambda>s. s_user_id s = u_id u) (submissions (db w1)) \<noteq> [] \<longrightarrow>
        map s_id (submissions (db w2)) = map s_id (submissions (db w1))"
    by blast
  from 1(2) 2(3) have ids: "map s_id (submissions (db w2)) = map s_id (submissions (db w1))"
    by simp
  then have "length (submissions (db w2)) = length (submissions (db w1))"
    by (rule map_eq_imp_length_eq)
  with 1(1,3) 2(1,2) ids show ?thesis by blast
qed

lemma ada_session_user: "get_current_user ada_session = Some ada_user"
  by (simp add: get_current_user_def ada_session_def get_user_def ada_world_def ada_db_def
        ada_user_def)

lemma ada_session_db: "db ada_session = ada_db"
  by (simp add: ada_session_def ada_world_def)

theorem submit_twice_witness:
  "reachable (db ada_session) \<and> get_current_user ada_session = Some ada_user \<and>
   fst (submit POST submit_form1 ada_session) = Inr (Redirect ''dashboard'') \<and>
   fst (submit POST submit_form2 (snd (submit POST submit_form1 ada_session))) =
     Inr (Redirect ''dashboard'') \<and>
   map (\<lambda>s. (s_title s, s_description s, s_github s, s_video s))
     (filter (\<lambda>s. s_user_id s = u_id ada_user)
        (submissions (db (snd (submit POST submit_form2
           (snd (submit POST submit_form1 ada_session))))))) =
     [(''Engine 2'', ''final'', ''https://example.org/b'', ''https://example.org/v2'')]"
proof -
  have a: "reachable (db ada_session)" by (simp add: ada_session_db reachable_ada)
  have f1: "submit_form1 ''title'' \<noteq> None \<and> submit_form1 ''desc'' \<noteq> None \<and>
     submit_form1 ''github'' \<noteq> None \<and> submit_form1 ''video'' \<noteq> None"
    by (simp add: submit_form1_def)
  have f2: "submit_form2 ''title'' = Some ''Engine 2'' \<and> submit_form2 ''desc'' = Some ''final'' \<and>
     submit_form2 ''github'' = Some ''https://example.org/b'' \<and>
     submit_form2 ''video'' = Some ''https://example.org/v2''"
    by (simp add: submit_form2_def)
  from submit_twice[OF a ada_session_user f1 f2] obtain w1 w2 i where
    r: "submit POST submit_form1 ada_session = (Inr (Redirect ''dashboard''), w1)"
    "submit POST submit_form2 w1 = (Inr (Redirect ''dashboard''), w2)"
    "filter (\<lambda>s. s_user_id s = u_id ada_user) (submissions (db w2)) =
       [\<lparr>s_id = i, s_title = ''Engine 2'', s_description = ''final'',
         s_github = ''https://example.org/b'', s_video = ''https://example.org/v2'',
         s_user_id = u_id ada_user\<rparr>]"
    by blast
  from r have "snd (submit POST submit_form1 ada_session) = w1"
    "snd (submit POST submit_form2 w1) = w2" by simp_all
  with r a ada_session_user show ?thesis by simp
qed

lemma split_from_nonempty:
  "cur \<noteq> [] \<Longrightarrow>
     split_from cur s =
       (cur @ takeWhile (\<lambda>c. \<not> isspace c) s) # split_from [] (dropWhile (\<lambda>c. \<not> isspace c) s)"
proof (induction s arbitrary: cur)
  case Nil
  then show ?case by simp
next
  case (Cons c cs)
  show ?case
  proof (cases "isspace c")
    case True
    with Cons.prems show ?thesis by simp
  next
    case False
    have "cur @ [c] \<noteq> []" by simp
    from Cons.IH[OF this] False show ?thesis by simp
  qed
qed

lemma split_from_empty:
  "split_from [] s =
     (case dropWhile isspace s of
        [] \<Rightarrow> []
      | c # cs \<Rightarrow> takeWhile (\<lambda>c. \<not> isspace c) (c # cs) #
                  split_from [] (dropWhile (\<lambda>c. \<not> isspace c) (c # cs)))"
proof (induction s)
  case Nil
  show ?case by simp
next
  case (Cons c cs)
  show ?case
  proof (cases "isspace c")
    case True
    with Cons.IH show ?thesis by simp
  next
    case False
    have "split_from [c] cs =
       ([c] @ takeWhile (\<lambda>c. \<not> isspace c) cs) # split_from [] (dropWhile (\<lambda>c. \<not> isspace c) cs)"
      by (rule split_from_nonempty) simp
    with False show ?thesis by simp
  qed
qed

text \<open>The first element of \<open>name.split()\<close>: skip the leading whitespace, take up to the next.\<close>

lemma str_split_cases:
  "str_split s =
     (case dropWhile isspace s of
        [] \<Rightarrow> []
      | c # cs \<Rightarrow> takeWhile (\<lambda>c. \<not> isspace c) (c # cs) #
                  split_from [] (dropWhile (\<lambda>c. \<not> isspace c) (c # cs)))"
  unfolding str_split_def by (rule split_from_empty)

lemma str_split_first:
  assumes "str_split s = tok # rest"
  shows "tok = takeWhile (\<lambda>c. \<not> isspace c) (dropWhile isspace s) \<and> tok \<noteq> []"
proof (cases "dropWhile isspace s")
  case Nil
  have "str_split s = []" using str_split_cases[of s] unfolding Nil by simp
  with assms show ?thesis by simp
next
  case (Cons c cs)
  then have c: "\<not> isspace c" by (metis hd_dropWhile list.sel(1) list.distinct(1))
  have "str_split s = takeWhile (\<lambda>c. \<not> isspace c) (c # cs) #
                  split_from [] (dropWhile (\<lambda>c. \<not> isspace c) (c # cs))"
    using str_split_cases[of s] unfolding Cons by simp
  with assms have "tok = takeWhile (\<lambda>c. \<not> isspace c) (c # cs)" by simp
  with c show ?thesis unfolding Cons by simp
qed

lemma str_split_empty:
  "str_split s = [] \<longleftrightarrow> takeWhile (\<lambda>c. \<not> isspace c) (dropWhile isspace s) = []"
proof (cases "dropWhile isspace s")
  case Nil
  have "str_split s = []" using str_split_cases[of s] unfolding Nil by simp
  then show ?thesis unfolding Nil by simp
next
  case (Cons c cs)
  then have c: "\<not> isspace c" by (metis hd_dropWhile list.sel(1) list.distinct(1))
  have "str_split s = takeWhile (\<lambda>c. \<not> isspace c) (c # cs) #
                  split_from [] (dropWhile (\<lambda>c. \<not> isspace c) (c # cs))"
    using str_split_cases[of s] unfolding Cons by simp
  with c show ?thesis unfolding Cons by simp
qed

lemma resolve_blank:
  assumes "tn = None \<or> tn = Some []" and "resolve_team_name tn name = Inr x"
  shows "\<exists>n. name = Some n \<and>
     x = ''Team-'' @ takeWhile (\<lambda>c. \<not> isspace c) (dropWhile isspace n) \<and>
     takeWhile (\<lambda>c. \<not> isspace c) (dropWhile isspace n) \<noteq> []"
proof -
  from assms obtain n where n: "name = Some n"
    by (cases name) (auto simp: resolve_team_name_def)
  from assms n obtain tok rest where t: "str_split n = tok # rest" "x = ''Team-'' @ tok"
    by (cases "str_split n") (auto simp: resolve_team_name_def)
  from str_split_first[OF t(1)] t(2) n show ?thesis by auto
qed

lemma resolve_blank_token:
  assumes "tn = None \<or> tn = Some []"
    and "takeWhile (\<lambda>c. \<not> isspace c) (dropWhile isspace n) \<noteq> []"
  shows "resolve_team_name tn (Some n) =
     Inr (''Team-'' @ takeWhile (\<lambda>c. \<not> isspace c) (dropWhile isspace n))"
proof -
  from assms(2) have "str_split n \<noteq> []" by (simp add: str_split_empty)
  then obtain tok rest where t: "str_split n = tok # rest" by (cases "str_split n") auto
  from str_split_first[OF t] t assms(1) show ?thesis
    by (auto simp: resolve_team_name_def)
qed

text \<open>
  C6. Take a registration with team choice create, a blank team name (absent or empty)
  and an e-mail that is not registered. Whenever it returns a response, it has stored one
  new Team and one new User who refers to that Team, and the name of the Team is
  "Team-" followed by the first whitespace-separated token of the registrant's name.
  It does return a response when the name has such a token, the other fields of the User
  are present and the invite-code loop ends. When the name has no token (it is empty or
  all whitespace) and a password was sent, the request raises IndexError and leaves the
  state as it was.
\<close>

theorem fallback_team_name:
  assumes "frm ''teamChoice'' = Some ''create''"
    and "frm ''teamName'' = None \<or> frm ''teamName'' = Some ''''"
    and "find_user_by_email (db w) (frm ''email'') = None"
  shows "(register hashpw POST frm w = Some (Inr resp, w') \<longrightarrow>
          (\<exists>name t u. frm ''name'' = Some name \<and>
             teams (db w') = teams (db w) @ [t] \<and>
             users (db w') = users (db w) @ [u] \<and>
             u_team_id u = Some (t_id t) \<and>
             t_team_name t =
               ''Team-'' @ takeWhile (\<lambda>c. \<not> isspace c) (dropWhile isspace name))) \<and>
         (frm ''name'' = Some n \<and>
          takeWhile (\<lambda>c. \<not> isspace c) (dropWhile isspace n) \<noteq> [] \<and>
          frm ''email'' \<noteq> None \<and> frm ''phone'' \<noteq> None \<and> frm ''college'' \<noteq> None \<and>
          frm ''password'' \<noteq> None \<and>
          unique_code_loop (db w) (fst (generate_invite_code (rng w)))
            (snd (generate_invite_code (rng w))) \<noteq> None \<longrightarrow>
          (\<exists>w''. register hashpw POST frm w = Some (Inr (Redirect ''login''), w''))) \<and>
         (frm ''name'' = Some n \<and>
          takeWhile (\<lambda>c. \<not> isspace c) (dropWhile isspace n) = [] \<and>
          frm ''password'' \<noteq> None \<longrightarrow>
          register hashpw POST frm w = Some (Inl IndexError, w))"
proof (intro conjI impI)
  assume ret: "register hashpw POST frm w = Some (Inr resp, w')"
  from ret assms(3) obtain pw where pw: "frm ''password'' = Some pw"
    by (cases "frm ''password''") (auto simp: register_def)
  from ret assms pw obtain tn where tn: "resolve_team_name (frm ''teamName'') (frm ''name'') = Inr tn"
    by (cases "resolve_team_name (frm ''teamName'') (frm ''name'')") (auto simp: register_def)
  obtain c0 r0 where g: "generate_invite_code (rng w) = (c0, r0)"
    by (cases "generate_invite_code (rng w)")
  from ret assms pw tn g obtain code r where loop: "unique_code_loop (db w) c0 r0 = Some (code, r)"
    by (cases "unique_code_loop (db w) c0 r0") (auto simp: register_def)
  let ?t = "\<lparr>t_id = next_id (map t_id (teams (db w))), t_team_name = tn,
             t_invite_code = code, t_created_by = None\<rparr>"
  let ?d = "(db w)\<lparr>teams := teams (db w) @ [?t]\<rparr>"
  from ret assms pw tn g loop have fin:
    "finish_register (frm ''name'') (frm ''email'') (frm ''phone'') (frm ''college'')
       (hashpw pw) (Some (next_id (map t_id (teams (db w))))) ?d (w\<lparr>rng := r\<rparr>) = (Inr resp, w')"
    by (simp add: register_def Let_def)
  then obtain d' where ins: "insert_user (frm ''name'') (frm ''email'') (frm ''phone'') (frm ''college'')
       (hashpw pw) (Some (next_id (map t_id (teams (db w))))) ?d = Inr d'" and w': "db w' = d'"
    by (auto simp: finish_register_def flash_def split: sum.splits)
  from ins obtain u where u: "d' = ?d\<lparr>users := users ?d @ [u]\<rparr>"
      "u_team_id u = Some (next_id (map t_id (teams (db w))))"
    by (auto simp: insert_user_def split: option.splits)
  from resolve_blank[OF _ tn] assms(2) obtain name where name: "frm ''name'' = Some name"
    "tn = ''Team-'' @ takeWhile (\<lambda>c. \<not> isspace c) (dropWhile isspace name)"
    by auto
  from u w' have "teams (db w') = teams (db w) @ [?t]" "users (db w') = users (db w) @ [u]"
    by simp_all
  with name u(2) show "\<exists>name t u. frm ''name'' = Some name \<and>
             teams (db w') = teams (db w) @ [t] \<and>
             users (db w') = users (db w) @ [u] \<and>
             u_team_id u = Some (t_id t) \<and>
             t_team_name t =
               ''Team-'' @ takeWhile (\<lambda>c. \<not> isspace c) (dropWhile isspace name)"
    by (intro exI[of _ name] exI[of _ ?t] exI[of _ u]) simp
next
  assume a: "frm ''name'' = Some n \<and>
          takeWhile (\<lambda>c. \<not> isspace c) (dropWhile isspace n) \<noteq> [] \<and>
          frm ''email'' \<noteq> None \<and> frm ''phone'' \<noteq> None \<and> frm ''college'' \<noteq> None \<and>
          frm ''password'' \<noteq> None \<and>
          unique_code_loop (db w) (fst (generate_invite_code (rng w)))
            (snd (generate_invite_code (rng w))) \<noteq> None"
  then obtain e p c pw y where f: "frm ''name'' = Some n" "frm ''email'' = Some e"
    "frm ''phone'' = Some p" "frm ''college'' = Some c" "frm ''password'' = Some pw"
    and loop: "unique_code_loop (db w) (fst (generate_invite_code (rng w)))
            (snd (generate_invite_code (rng w))) = Some y"
    by auto
  from a assms(2) have tn: "resolve_team_name (frm ''teamName'') (Some n) =
     Inr (''Team-'' @ takeWhile (\<lambda>c. \<not> isspace c) (dropWhile isspace n))"
    by (intro resolve_blank_token) auto
  from assms(1,3) f loop tn
  show "\<exists>w''. register hashpw POST frm w = Some (Inr (Redirect ''login''), w'')"
    by (simp add: register_def Let_def finish_register_def insert_user_def split_beta)
next
  assume b: "frm ''name'' = Some n \<and>
          takeWhile (\<lambda>c. \<not> isspace c) (dropWhile isspace n) = [] \<and>
          frm ''password'' \<noteq> None"
  then obtain pw where pw: "frm ''password'' = Some pw" by auto
  from b have "str_split n = []" by (simp add: str_split_empty)
  with b assms(2) have "resolve_team_name (frm ''teamName'') (frm ''name'') = Inl IndexError"
    by (auto simp: resolve_team_name_def)
  with assms(1,3) pw show "register hashpw POST frm w = Some (Inl IndexError, w)"
    by (simp add: register_def)
qed

theorem fallback_team_name_witness:
  "ada_form ''teamChoice'' = Some ''create'' \<and> ada_form ''teamName'' = Some '''' \<and>
   find_user_by_email (db start_world) (ada_form ''email'') = None \<and>
   register rev POST ada_form start_world = Some (Inr (Redirect ''login''), ada_world) \<and>
   (\<exists>t u. teams (db ada_world) = teams (db start_world) @ [t] \<and>
      users (db ada_world) = users (db start_world) @ [u] \<and>
      u_team_id u = Some (t_id t) \<and>
      t_team_name t = ''Team-Ada'')"
proof -
  have a: "ada_form ''teamChoice'' = Some ''create''" by (rule ada_form_simps)
  have b: "ada_form ''teamName'' = Some ''''" by (rule ada_form_simps)
  have c: "find_user_by_email (db start_world) (ada_form ''email'') = None"
    by (simp add: start_world_def empty_db_simps)
  have tok: "takeWhile (\<lambda>c. \<not> isspace c) (dropWhile isspace ''Ada Lovelace'') = ''Ada''"
    by (simp add: isspace_def)
  from fallback_team_name[of ada_form start_world rev "Redirect ''login''" ada_world, OF a _ c]
    b register_ada ada_form_simps(3) tok a c
  show ?thesis by auto
qed

lemma map_triple_third:
  "map (\<lambda>f. (a f, b f, c f)) xs = map (\<lambda>y. (a' y, b' y, k)) ys \<Longrightarrow> \<forall>f \<in> set xs. c f = k"
proof (induction xs arbitrary: ys)
  case Nil
  show ?case by simp
next
  case (Cons x xs)
  then obtain y ys' where ys: "ys = y # ys'" by (cases ys) auto
  with Cons.prems have "c x = k" "map (\<lambda>f. (a f, b f, c f)) xs = map (\<lambda>y. (a' y, b' y, k)) ys'"
    by simp_all
  with Cons.IH show ?case by simp
qed

text \<open>One POST to /feedback by a logged-in user, with both fields in the form.\<close>

lemma feedback_post:
  assumes "get_current_user w = Some u" and "frm ''text'' = Some t" and "frm ''rating'' = Some r"
  shows "\<exists>w'. feedback POST frm w = (Inr (Redirect ''feedback''), w') \<and>
     feedbacks (db w') = feedbacks (db w) @
       [\<lparr>f_id = next_id (map f_id (feedbacks (db w))), f_text = t, f_rating = r,
         f_user_id = Some (u_id u)\<rparr>] \<and>
     get_current_user w' = Some u"
proof -
  let ?fb = "\<lparr>f_id = next_id (map f_id (feedbacks (db w))), f_text = t, f_rating = r,
         f_user_id = Some (u_id u)\<rparr>"
  let ?w' = "flash ''Thank you for your feedback!'' ''success''
     (w\<lparr>db := (db w)\<lparr>feedbacks := feedbacks (db w) @ [?fb]\<rparr>\<rparr>)"
  from assms have "feedback POST frm w = (Inr (Redirect ''feedback''), ?w')"
    by (simp add: feedback_def Let_def)
  moreover have "feedbacks (db ?w') = feedbacks (db w) @ [?fb]" by (simp add: flash_def)
  moreover have "get_current_user ?w' = Some u"
    using assms(1) get_current_user_frame[of ?w' w] by (simp add: flash_def)
  ultimately show ?thesis by blast
qed

lemma feedback_posts_append:
  assumes "get_current_user w = Some u"
    and "\<forall>frm \<in> set frms. frm ''text'' \<noteq> None \<and> frm ''rating'' \<noteq> None"
  shows "\<exists>new. fst (feedback_posts frms w) = replicate (length frms) (Inr (Redirect ''feedback'')) \<and>
     feedbacks (db (snd (feedback_posts frms w))) = feedbacks (db w) @ new \<and>
     map (\<lambda>f. (Some (f_text f), Some (f_rating f), f_user_id f)) new =
       map (\<lambda>frm. (frm ''text'', frm ''rating'', Some (u_id u))) frms \<and>
     get_current_user (snd (feedback_posts frms w)) = Some u"
  using assms
proof (induction frms arbitrary: w)
  case Nil
  then show ?case by simp
next
  case (Cons frm frms)
  from Cons.prems(2) obtain t r where f: "frm ''text'' = Some t" "frm ''rating'' = Some r"
    by auto
  from feedback_post[OF Cons.prems(1) f] obtain w' where
    w': "feedback POST frm w = (Inr (Redirect ''feedback''), w')"
    "feedbacks (db w') = feedbacks (db w) @
       [\<lparr>f_id = next_id (map f_id (feedbacks (db w))), f_text = t, f_rating = r,
         f_user_id = Some (u_id u)\<rparr>]"
    "get_current_user w' = Some u"
    by blast
  from Cons.prems(2) have rest: "\<forall>frm \<in> set frms. frm ''text'' \<noteq> None \<and> frm ''rating'' \<noteq> None"
    by simp
  from Cons.IH[OF w'(3) rest] obtain new where
    new: "fst (feedback_posts frms w') = replicate (length frms) (Inr (Redirect ''feedback''))"
    "feedbacks (db (snd (feedback_posts frms w'))) = feedbacks (db w') @ new"
    "map (\<lambda>f. (Some (f_text f), Some (f_rating f), f_user_id f)) new =
       map (\<lambda>frm. (frm ''text'', frm ''rating'', Some (u_id u))) frms"
    "get_current_user (snd (feedback_posts frms w')) = Some u"
    by blast
  let ?fb = "\<lparr>f_id = next_id (map f_id (feedbacks (db w))), f_text = t, f_rating = r,
         f_user_id = Some (u_id u)\<rparr>"
  have 1: "fst (feedback_posts (frm # frms) w) =
      replicate (length (frm # frms)) (Inr (Redirect ''feedback''))"
    using w'(1) new(1) by (simp add: split_beta)
  have s: "snd (feedback_posts (frm # frms) w) = snd (feedback_posts frms w')"
    using w'(1) by (simp add: split_beta)
  have 2: "feedbacks (db (snd (feedback_posts (frm # frms) w))) = feedbacks (db w) @ (?fb # new)"
    unfolding s using new(2) w'(2) by simp
  have 3: "map (\<lambda>f. (Some (f_text f), Some (f_rating f), f_user_id f)) (?fb # new) =
       map (\<lambda>frm. (frm ''text'', frm ''rating'', Some (u_id u))) (frm # frms)"
    using new(3) f by simp
  have 4: "get_current_user (snd (feedback_posts (frm # frms) w)) = Some u"
    unfolding s using new(4) .
  from 1 2 3 4 show ?case by blast
qed

lemma feedback_posts_sorted:
  "sorted_wrt (<) (map f_id (feedbacks (db w))) \<Longrightarrow>
     sorted_wrt (<) (map f_id (feedbacks (db (snd (feedback_posts frms w)))))"
proof (induction frms arbitrary: w)
  case Nil
  then show ?case by simp
next
  case (Cons frm frms)
  from feedback_effect[of POST frm w] Cons.prems
  have "sorted_wrt (<) (map f_id (feedbacks (db (snd (feedback POST frm w)))))" by simp
  from Cons.IH[OF this] show ?case by (simp add: split_beta)
qed

text \<open>The list that GET /feedback shows to a logged-in user, on a table in ascending id order.\<close>

lemma feedback_get:
  assumes "get_current_user w = Some u" and "sorted_wrt (<) (map f_id (feedbacks (db w)))"
  shows "feedback GET frm w =
     (Inr (Render (FeedbackView
        (rev (filter (\<lambda>f. f_user_id f = Some (u_id u)) (feedbacks (db w)))))), w)"
proof -
  let ?own = "filter (\<lambda>f. f_user_id f = Some (u_id u)) (feedbacks (db w))"
  from assms(2) have "sorted (map f_id (feedbacks (db w)))" by (rule strict_sorted_imp_sorted)
  then have "sorted (map f_id ?own)" by (rule sorted_filter)
  then have "sort_key f_id ?own = ?own" by (rule sort_key_id_if_sorted)
  with assms(1) show ?thesis by (simp add: feedback_def Let_def)
qed

text \<open>
  C7. In a reachable store, N POSTs to /feedback by a logged-in user, each with text and
  rating, are all answered by the redirect to the feedback page and append exactly N rows
  to the Feedback table, in the order of the calls, with the texts and ratings sent and
  the user's id; the rows that were there stay as they were. GET /feedback then shows
  exactly the rows of that user, the newest first, which is the order of descending id.
  A POST without a logged-in user is redirected to the login view with a notice, and the
  store is as before.
\<close>

theorem feedback_append_only:
  assumes "reachable (db w)" and "get_current_user w = Some u"
    and "\<forall>frm \<in> set frms. frm ''text'' \<noteq> None \<and> frm ''rating'' \<noteq> None"
  shows "\<exists>new.
     fst (feedback_posts frms w) = replicate (length frms) (Inr (Redirect ''feedback'')) \<and>
     feedbacks (db (snd (feedback_posts frms w))) = feedbacks (db w) @ new \<and>
     length new = length frms \<and>
     map (\<lambda>f. (Some (f_text f), Some (f_rating f), f_user_id f)) new =
       map (\<lambda>frm. (frm ''text'', frm ''rating'', Some (u_id u))) frms \<and>
     feedback GET frm' (snd (feedback_posts frms w)) =
       (Inr (Render (FeedbackView
          (rev new @ rev (filter (\<lambda>f. f_user_id f = Some (u_id u)) (feedbacks (db w)))))),
        snd (feedback_posts frms w)) \<and>
     sorted_wrt (>) (map f_id
       (rev new @ rev (filter (\<lambda>f. f_user_id f = Some (u_id u)) (feedbacks (db w))))) \<and>
     (get_current_user w0 = None \<longrightarrow>
        feedback POST frm0 w0 =
          (Inr (Redirect ''login''),
           w0\<lparr>flashes := flashes w0 @ [(''error'', ''Login required to give feedback.'')]\<rparr>))"
proof -
  let ?wN = "snd (feedback_posts frms w)"
  let ?own = "\<lambda>f. f_user_id f = Some (u_id u)"
  from feedback_posts_append[OF assms(2,3)] obtain new where
    new: "fst (feedback_posts frms w) = replicate (length frms) (Inr (Redirect ''feedback''))"
    "feedbacks (db ?wN) = feedbacks (db w) @ new"
    "map (\<lambda>f. (Some (f_text f), Some (f_rating f), f_user_id f)) new =
       map (\<lambda>frm. (frm ''text'', frm ''rating'', Some (u_id u))) frms"
    "get_current_user ?wN = Some u"
    by blast
  from new(3) have len: "length new = length frms" by (rule map_eq_imp_length_eq)
  from new(3) have "\<forall>f \<in> set new. ?own f" by (rule map_triple_third)
  then have own_new: "filter ?own new = new" by (simp add: filter_id_conv)
  have sorted0: "sorted_wrt (<) (map f_id (feedbacks (db w)))"
    by (rule reachable_feedbacks[OF assms(1)])
  then have sortedN: "sorted_wrt (<) (map f_id (feedbacks (db ?wN)))"
    by (rule feedback_posts_sorted)
  have shown: "rev (filter ?own (feedbacks (db ?wN))) = rev new @ rev (filter ?own (feedbacks (db w)))"
    by (simp add: new(2) own_new)
  have get: "feedback GET frm' ?wN =
       (Inr (Render (FeedbackView (rev new @ rev (filter ?own (feedbacks (db w)))))), ?wN)"
    using feedback_get[OF new(4) sortedN, of frm'] by (simp only: shown)
  from sortedN have "sorted_wrt (<) (map f_id (filter ?own (feedbacks (db ?wN))))"
    by (simp only: sorted_wrt_map sorted_wrt_filter)
  then have "sorted_wrt (>) (map f_id (rev (filter ?own (feedbacks (db ?wN)))))"
    by (simp only: rev_map[symmetric] sorted_wrt_rev)
  then have desc: "sorted_wrt (>) (map f_id (rev new @ rev (filter ?own (feedbacks (db w)))))"
    by (simp only: shown)
  have anon: "get_current_user w0 = None \<longrightarrow>
        feedback POST frm0 w0 =
          (Inr (Redirect ''login''),
           w0\<lparr>flashes := flashes w0 @ [(''error'', ''Login required to give feedback.'')]\<rparr>)"
    by (simp add: feedback_def Let_def flash_def)
  show ?thesis
  proof (intro exI[of _ new] conjI)
    show "fst (feedback_posts frms w) = replicate (length frms) (Inr (Redirect ''feedback''))"
      by (fact new(1))
    show "feedbacks (db ?wN) = feedbacks (db w) @ new" by (fact new(2))
    show "length new = length frms" by (fact len)
    show "map (\<lambda>f. (Some (f_text f), Some (f_rating f), f_user_id f)) new =
       map (\<lambda>frm. (frm ''text'', frm ''rating'', Some (u_id u))) frms"
      by (fact new(3))
    show "feedback GET frm' ?wN =
       (Inr (Render (FeedbackView (rev new @ rev (filter ?own (feedbacks (db w)))))), ?wN)"
      by (fact get)
    show "sorted_wrt (>) (map f_id (rev new @ rev (filter ?own (feedbacks (db w)))))"
      by (fact desc)
    show "get_current_user w0 = None \<longrightarrow>
        feedback POST frm0 w0 =
          (Inr (Redirect ''login''),
           w0\<lparr>flashes := flashes w0 @ [(''error'', ''Login required to give feedback.'')]\<rparr>)"
      by (fact anon)
  qed
qed

theorem feedback_append_only_witness:
  "reachable (db ada_session) \<and> get_current_user ada_session = Some ada_user \<and>
   feedback_form1 ''text'' \<noteq> None \<and> feedback_form1 ''rating'' \<noteq> None \<and>
   feedback_form2 ''text'' \<noteq> None \<and> feedback_form2 ''rating'' \<noteq> None \<and>
   feedbacks (db ada_session) = [] \<and>
   fst (feedback_posts [feedback_form1, feedback_form2] ada_session) =
     [Inr (Redirect ''feedback''), Inr (Redirect ''feedback'')] \<and>
   map f_text (feedbacks (db (snd (feedback_posts [feedback_form1, feedback_form2] ada_session)))) =
     [''Great venue'', ''More coffee''] \<and>
   feedback GET Map.empty (snd (feedback_posts [feedback_form1, feedback_form2] ada_session)) =
     (Inr (Render (FeedbackView
        (rev (feedbacks (db (snd (feedback_posts [feedback_form1, feedback_form2] ada_session))))))),
      snd (feedback_posts [feedback_form1, feedback_form2] ada_session)) \<and>
   get_current_user start_world = None \<and>
   feedback POST feedback_form1 start_world =
     (Inr (Redirect ''login''),
      start_world\<lparr>flashes := flashes start_world @
         [(''error'', ''Login required to give feedback.'')]\<rparr>)"
proof -
  let ?frms = "[feedback_form1, feedback_form2]"
  let ?wN = "snd (feedback_posts ?frms ada_session)"
  have a: "reachable (db ada_session)" by (simp add: ada_session_db reachable_ada)
  have f: "\<forall>frm \<in> set ?frms. frm ''text'' \<noteq> None \<and> frm ''rating'' \<noteq> None"
    by (simp add: feedback_form1_def feedback_form2_def)
  have e: "feedbacks (db ada_session) = []"
    by (simp add: ada_session_db ada_db_def empty_db_def)
  have n: "get_current_user start_world = None"
    by (simp add: get_current_user_def start_world_def)
  from feedback_append_only[OF a ada_session_user f, of Map.empty start_world feedback_form1]
  obtain new where
    new: "fst (feedback_posts ?frms ada_session) =
        replicate (length ?frms) (Inr (Redirect ''feedback''))"
    "feedbacks (db ?wN) = feedbacks (db ada_session) @ new"
    "map (\<lambda>f. (Some (f_text f), Some (f_rating f), f_user_id f)) new =
       map (\<lambda>frm. (frm ''text'', frm ''rating'', Some (u_id ada_user))) ?frms"
    "feedback GET Map.empty ?wN =
       (Inr (Render (FeedbackView
          (rev new @ rev (filter (\<lambda>f. f_user_id f = Some (u_id ada_user))
             (feedbacks (db ada_session)))))), ?wN)"
    "get_current_user start_world = None \<longrightarrow>
        feedback POST feedback_form1 start_world =
          (Inr (Redirect ''login''),
           start_world\<lparr>flashes := flashes start_world @
              [(''error'', ''Login required to give feedback.'')]\<rparr>)"
    by (elim exE conjE) (rule that; assumption)
  from new(2) e have rows: "feedbacks (db ?wN) = new" by simp
  have "map (\<lambda>p. the (fst p)) (map (\<lambda>f. (Some (f_text f), Some (f_rating f), f_user_id f)) new) =
      map f_text new"
    by (simp add: o_def)
  then have texts: "map f_text new = [''Great venue'', ''More coffee'']"
    by (simp only: new(3)) (simp add: feedback_form1_def feedback_form2_def)
  have 1: "fst (feedback_posts ?frms ada_session) =
     [Inr (Redirect ''feedback''), Inr (Redirect ''feedback'')]"
    using new(1) by (simp add: numeral_2_eq_2)
  have 2: "map f_text (feedbacks (db ?wN)) = [''Great venue'', ''More coffee'']"
    using texts by (simp only: rows)
  have 3: "feedback GET Map.empty ?wN = (Inr (Render (FeedbackView (rev (feedbacks (db ?wN))))), ?wN)"
    using new(4) e by (simp only: rows) simp
  from f have f': "feedback_form1 ''text'' \<noteq> None" "feedback_form1 ''rating'' \<noteq> None"
    "feedback_form2 ''text'' \<noteq> None" "feedback_form2 ''rating'' \<noteq> None"
    by simp_all
  from a ada_session_user f' e 1 2 3 n new(5) show ?thesis by (simp only: simp_thms)
qed

lemma add_sponsors_length: "length (add_sponsors xs rows) = length rows + length xs"
  by (induction xs rows rule: add_sponsors.induct) simp_all

lemma add_sponsors_default:
  "map (\<lambda>s. (sp_name s, sp_tier s, sp_link s)) (add_sponsors default_sponsors []) = default_sponsors \<and>
   map sp_id (add_sponsors default_sponsors []) = [1, 2, 3]"
  by (simp add: default_sponsors_def next_id_def)

text \<open>
  C8. Seeding is idempotent. On an empty Sponsor table it inserts exactly the three
  default sponsors; on a non-empty table, and so when it runs a second time, it changes
  nothing. The sponsors view and the dashboard of a logged-in user leave the store that
  the seeding leaves.
\<close>

theorem seed_sponsors_idempotent:
  "seed_sponsors (seed_sponsors w) = seed_sponsors w \<and>
   (sponsors (db w) = [] \<longrightarrow>
      length (sponsors (db (seed_sponsors w))) = 3 \<and>
      map (\<lambda>s. (sp_name s, sp_tier s, sp_link s)) (sponsors (db (seed_sponsors w))) =
        default_sponsors) \<and>
   (sponsors (db w) \<noteq> [] \<longrightarrow> seed_sponsors w = w) \<and>
   snd (sponsors_page w) = seed_sponsors w \<and>
   snd (sponsors_page (snd (sponsors_page w))) = snd (sponsors_page w) \<and>
   (get_current_user w \<noteq> None \<longrightarrow> snd (dashboard w) = seed_sponsors w)"
proof (intro conjI impI)
  show idem: "seed_sponsors (seed_sponsors w) = seed_sponsors w"
  proof (cases "sponsors (db w) = []")
    case True
    have "length (add_sponsors default_sponsors []) = 3"
      by (simp add: add_sponsors_length default_sponsors_def)
    then have "add_sponsors default_sponsors [] \<noteq> []" by auto
    with True show ?thesis by (simp add: seed_sponsors_def)
  next
    case False
    then show ?thesis by (simp add: seed_sponsors_def)
  qed
  show "snd (sponsors_page w) = seed_sponsors w"
    by (simp add: sponsors_page_def Let_def)
  then show "snd (sponsors_page (snd (sponsors_page w))) = snd (sponsors_page w)"
    by (simp add: sponsors_page_def Let_def idem)
next
  assume "sponsors (db w) = []"
  then show "length (sponsors (db (seed_sponsors w))) = 3"
    by (simp add: seed_sponsors_def add_sponsors_length default_sponsors_def)
next
  assume "sponsors (db w) = []"
  then show "map (\<lambda>s. (sp_name s, sp_tier s, sp_link s)) (sponsors (db (seed_sponsors w))) =
        default_sponsors"
    by (simp add: seed_sponsors_def add_sponsors_default)
next
  assume "sponsors (db w) \<noteq> []"
  then show "seed_sponsors w = w" by (simp add: seed_sponsors_def)
next
  assume "get_current_user w \<noteq> None"
  then show "snd (dashboard w) = seed_sponsors w"
    by (auto simp: dashboard_def Let_def)
qed

theorem seed_sponsors_idempotent_witness:
  "sponsors (db start_world) = [] \<and>
   length (sponsors (db (seed_sponsors start_world))) = 3 \<and>
   map (\<lambda>s. (sp_name s, sp_tier s, sp_link s)) (sponsors (db (seed_sponsors start_world))) =
     default_sponsors \<and>
   sponsors (db (seed_sponsors start_world)) \<noteq> [] \<and>
   seed_sponsors (seed_sponsors start_world) = seed_sponsors start_world \<and>
   get_current_user both_world \<noteq> None \<and>
   snd (dashboard both_world) = seed_sponsors both_world"
proof -
  have a: "sponsors (db start_world) = []" by (simp add: start_world_def empty_db_def)
  have b: "get_current_user both_world \<noteq> None"
    by (simp add: get_current_user_def both_world_def get_user_def ada_world_def ada_db_def ada_user_def)
  from seed_sponsors_idempotent[of start_world] a
  have c: "length (sponsors (db (seed_sponsors start_world))) = 3"
    "map (\<lambda>s. (sp_name s, sp_tier s, sp_link s)) (sponsors (db (seed_sponsors start_world))) =
     default_sponsors"
    by simp_all
  from c(1) have d: "sponsors (db (seed_sponsors start_world)) \<noteq> []" by auto
  from seed_sponsors_idempotent[of "seed_sponsors start_world"] d
  have c': "seed_sponsors (seed_sponsors start_world) = seed_sponsors start_world" by simp
  from seed_sponsors_idempotent[of both_world] b
  have e: "snd (dashboard both_world) = seed_sponsors both_world" by simp
  from a b c(1,2) c' d e show ?thesis by simp
qed

text \<open>
  C9. An admin login attempt with any pair other than the configured e-mail and password
  re-renders the login form, queues the notice of the invalid credentials and leaves
  every other entry of the session as it was. So when the admin flag was unset before the
  attempt it is unset after it, and the admin dashboard then redirects to the admin login
  view: it neither renders nor raises.
\<close>

theorem admin_login_wrong_credentials:
  assumes "\<not> (frm ''email'' = Some ''admin@hackathon.com'' \<and> frm ''password'' = Some ''admin123'')"
  shows "\<exists>w'. admin_login POST frm w = (Inr (Render AdminLoginView), w') \<and>
     session w' = session w \<and> db w' = db w \<and>
     flashes w' = flashes w @ [(''error'', ''Invalid admin credentials.'')] \<and>
     (\<not> session_is_admin w \<longrightarrow>
        \<not> session_is_admin w' \<and>
        fst (admin_dashboard w') = Inr (Redirect ''admin_login'') \<and>
        \<not> session_is_admin (snd (admin_dashboard w')))"
proof -
  let ?w' = "flash ''Invalid admin credentials.'' ''error'' w"
  from assms have r: "admin_login POST frm w = (Inr (Render AdminLoginView), ?w')"
    by (auto simp: admin_login_def ADMIN_EMAIL_def ADMIN_PASSWORD_def Let_def)
  have s: "session ?w' = session w" "db ?w' = db w"
    "flashes ?w' = flashes w @ [(''error'', ''Invalid admin credentials.'')]"
    by (simp_all add: flash_def)
  from s(1) have a: "session_is_admin ?w' = session_is_admin w"
    by (simp add: session_is_admin_def)
  have "\<not> session_is_admin w \<Longrightarrow>
     fst (admin_dashboard ?w') = Inr (Redirect ''admin_login'') \<and>
     \<not> session_is_admin (snd (admin_dashboard ?w'))"
    using a by (simp add: admin_dashboard_def require_admin_def) (simp add: session_is_admin_def flash_def)
  with r s a show ?thesis by auto
qed

theorem admin_login_wrong_credentials_witness:
  "\<not> (wrong_admin_form ''email'' = Some ''admin@hackathon.com'' \<and>
      wrong_admin_form ''password'' = Some ''admin123'') \<and>
   \<not> session_is_admin ada_world \<and>
   fst (admin_login POST wrong_admin_form ada_world) = Inr (Render AdminLoginView) \<and>
   \<not> session_is_admin (snd (admin_login POST wrong_admin_form ada_world)) \<and>
   fst (admin_dashboard (snd (admin_login POST wrong_admin_form ada_world))) =
     Inr (Redirect ''admin_login'')"
proof -
  have a: "\<not> (wrong_admin_form ''email'' = Some ''admin@hackathon.com'' \<and>
      wrong_admin_form ''password'' = Some ''admin123'')"
    by (simp add: wrong_admin_form_def)
  have b: "\<not> session_is_admin ada_world"
    by (simp add: session_is_admin_def ada_world_def)
  from admin_login_wrong_credentials[OF a, of ada_world] a b show ?thesis by auto
qed

text \<open>
  C10 as stated fails: admin logout does not leave every other entry of the session as
  it was. It queues its notice, so the entry of the queued notices changes.
\<close>

theorem admin_logout_counterexample:
  "flashes both_world = [(''success'', ''Registration successful. Please login.'')] \<and>
   flashes (snd (admin_logout both_world)) =
     [(''success'', ''Registration successful. Please login.''),
      (''info'', ''Admin logged out.'')]"
  by (simp add: admin_logout_def flash_def both_world_def ada_world_def)

text \<open>
  C10 (as amended). Admin logout removes the entry of the admin flag from the session and
  appends its notice to the queued notices; every other entry is as it was, so a
  logged-in participant stays logged in, and the store is untouched. Participant logout
  clears the whole session, the admin flag and the notices queued before included, and
  then queues its own notice, the only entry it leaves.
\<close>

theorem admin_logout_frame:
  "(\<forall>k. k \<noteq> ''is_admin'' \<and> k \<noteq> ''_flashes'' \<longrightarrow>
        session (snd (admin_logout w)) k = session w k) \<and>
   session (snd (admin_logout w)) ''is_admin'' = None \<and>
   flashes (snd (admin_logout w)) = flashes w @ [(''info'', ''Admin logged out.'')] \<and>
   \<not> session_is_admin (snd (admin_logout w)) \<and>
   session (snd (admin_logout w)) ''user_id'' = session w ''user_id'' \<and>
   get_current_user (snd (admin_logout w)) = get_current_user w \<and>
   db (snd (admin_logout w)) = db w \<and>
   fst (admin_logout w) = Inr (Redirect ''admin_login'') \<and>
   session (snd (logout w)) = Map.empty \<and>
   flashes (snd (logout w)) = [(''info'', ''Logged out.'')] \<and>
   \<not> session_is_admin (snd (logout w)) \<and>
   get_current_user (snd (logout w)) = None \<and>
   db (snd (logout w)) = db w \<and>
   fst (logout w) = Inr (Redirect ''home'')"
  by (simp add: admin_logout_def logout_def flash_def session_is_admin_def get_current_user_def
        split: option.splits)

theorem admin_logout_frame_witness:
  "session_is_admin both_world \<and> get_current_user both_world = Some ada_user \<and>
   \<not> session_is_admin (snd (admin_logout both_world)) \<and>
   get_current_user (snd (admin_logout both_world)) = Some ada_user \<and>
   session (snd (admin_logout both_world)) ''user_id'' = Some (IntV 1) \<and>
   flashes (snd (admin_logout both_world)) =
     flashes both_world @ [(''info'', ''Admin logged out.'')] \<and>
   session (snd (logout both_world)) = Map.empty \<and>
   flashes (snd (logout both_world)) = [(''info'', ''Logged out.'')] \<and>
   get_current_user (snd (logout both_world)) = None"
proof -
  have a: "session_is_admin both_world" by (simp add: session_is_admin_def both_world_def)
  have b: "get_current_user both_world = Some ada_user"
    by (simp add: get_current_user_def both_world_def get_user_def ada_world_def ada_db_def ada_user_def)
  have c: "session both_world ''user_id'' = Some (IntV 1)" by (simp add: both_world_def)
  from admin_logout_frame[of both_world] a b c show ?thesis by simp
qed

end
